theory Spec2Isabelle
  imports Main "HOL-Library.Sublist" "HOL-Library.AList"
begin

section \<open>Cards\<close>

text \<open>
  Chip counts, card values and rankings are JavaScript numbers that only ever hold
  integers; they are modelled as \<open>int\<close>. A JavaScript object used as a dictionary
  keyed by player id is an association list; looking a missing key up gives
  \<open>undefined\<close>, modelled as \<open>None\<close>.
\<close>

datatype suit = Spades | Hearts | Diamonds | Clubs

datatype rank = R2 | R3 | R4 | R5 | R6 | R7 | R8 | R9 | R10 | RJ | RQ | RK | RA

fun RANK_VALUES :: "rank \<Rightarrow> int" where
  "RANK_VALUES R2 = 2"
| "RANK_VALUES R3 = 3"
| "RANK_VALUES R4 = 4"
| "RANK_VALUES R5 = 5"
| "RANK_VALUES R6 = 6"
| "RANK_VALUES R7 = 7"
| "RANK_VALUES R8 = 8"
| "RANK_VALUES R9 = 9"
| "RANK_VALUES R10 = 10"
| "RANK_VALUES RJ = 11"
| "RANK_VALUES RQ = 12"
| "RANK_VALUES RK = 13"
| "RANK_VALUES RA = 14"

record card =
  card_suit :: suit
  card_rank :: rank
  card_value :: int

text \<open>The constructor of class Card: the value is looked up from the rank.\<close>

definition Card :: "suit \<Rightarrow> rank \<Rightarrow> card" where
  "Card s r = \<lparr>card_suit = s, card_rank = r, card_value = RANK_VALUES r\<rparr>"

section \<open>Hand evaluation results and their comparison\<close>

text \<open>
  The object returned by evaluate5Cards: \<open>ranking\<close> (1 to 10), \<open>name\<close>, the
  tie-break vector \<open>values\<close> and the sorted \<open>cards\<close>.
\<close>

record hand =
  ranking :: int
  hand_name :: string
  hand_values :: "int list"
  hand_cards :: "card list"

text \<open>
  \<open>hand.values[i] || 0\<close>: an index past the end reads \<open>undefined\<close>, which is falsy,
  and so is the number 0; both give 0.
\<close>

definition value_or_0 :: "int list \<Rightarrow> nat \<Rightarrow> int" where
  "value_or_0 vs i = (if i < length vs \<and> vs ! i \<noteq> 0 then vs ! i else 0)"

text \<open>The kicker loop of compareHands, started at index \<open>i\<close>.\<close>

function compareValues :: "nat \<Rightarrow> int list \<Rightarrow> int list \<Rightarrow> int" where
  "compareValues i v1 v2 =
     (if i < max (length v1) (length v2) then
        (if value_or_0 v1 i \<noteq> value_or_0 v2 i
         then value_or_0 v1 i - value_or_0 v2 i
         else compareValues (i + 1) v1 v2)
      else 0)"
  by pat_completeness auto
termination
  by (relation "measure (\<lambda>(i, v1, v2). max (length v1) (length v2) - i)") auto

declare compareValues.simps [simp del]

definition compareHands :: "hand \<Rightarrow> hand \<Rightarrow> int" where
  "compareHands hand1 hand2 =
     (if ranking hand1 \<noteq> ranking hand2 then ranking hand1 - ranking hand2
      else compareValues 0 (hand_values hand1) (hand_values hand2))"

section \<open>HandEvaluator\<close>

text \<open>
  What a call can throw: \<open>Error msg\<close> is \<open>throw new Error(msg)\<close>, \<open>TypeError\<close> is
  the engine's own exception on reading a property of \<open>undefined\<close> or \<open>null\<close>.
\<close>

datatype error = Error string | TypeError

text \<open>\<open>arr[i]\<close>: \<open>undefined\<close> past the end.\<close>

definition js_index :: "'a list \<Rightarrow> nat \<Rightarrow> 'a option" where
  "js_index xs i = (if i < length xs then Some (xs ! i) else None)"

text \<open>
  \<open>Array.prototype.sort(cmp)\<close>: a stable sort; \<open>cmp a b < 0\<close> puts \<open>a\<close> first.
\<close>

fun js_insort :: "('a \<Rightarrow> 'a \<Rightarrow> int) \<Rightarrow> 'a \<Rightarrow> 'a list \<Rightarrow> 'a list" where
  "js_insort cmp x [] = [x]"
| "js_insort cmp x (y # ys) = (if cmp x y \<le> 0 then x # y # ys else y # js_insort cmp x ys)"

definition js_sort :: "('a \<Rightarrow> 'a \<Rightarrow> int) \<Rightarrow> 'a list \<Rightarrow> 'a list" where
  "js_sort cmp xs = foldr (js_insort cmp) xs []"

subsection \<open>getCombinations\<close>

text \<open>
  The inner function \<open>combine(start, combo)\<close> and its \<open>for\<close> loop from index \<open>i\<close>.
  Each returns the arrays it pushes onto \<open>result\<close>, in the order of the pushes;
  \<open>combo.push\<close> before the recursive call and \<open>combo.pop\<close> after it amount to
  passing the extended array down.
\<close>

function combine :: "'a list \<Rightarrow> nat \<Rightarrow> nat \<Rightarrow> 'a list \<Rightarrow> 'a list list"
  and combine_loop :: "'a list \<Rightarrow> nat \<Rightarrow> nat \<Rightarrow> 'a list \<Rightarrow> 'a list list" where
  "combine arr sz start combo =
     (if length combo = sz then [combo] else combine_loop arr sz start combo)"
| "combine_loop arr sz i combo =
     (if i < length arr
      then combine arr sz (i + 1) (combo @ [arr ! i]) @ combine_loop arr sz (i + 1) combo
      else [])"
  by pat_completeness auto
termination
  by (relation "measure (\<lambda>x. case x of
         Inl (arr, sz, start, combo) \<Rightarrow> 2 * (length arr - start) + 1
       | Inr (arr, sz, i, combo) \<Rightarrow> 2 * (length arr - i))") auto

declare combine.simps [simp del] combine_loop.simps [simp del]

definition getCombinations :: "'a list \<Rightarrow> nat \<Rightarrow> 'a list list" where
  "getCombinations arr sz = combine arr sz 0 []"

subsection \<open>evaluate5Cards and its helpers\<close>

text \<open>\<open>checkFlush\<close> reads \<open>cards[0].suit\<close>, which throws on an empty array.\<close>

definition checkFlush :: "card list \<Rightarrow> error + bool" where
  "checkFlush cards =
     (case cards of
        [] \<Rightarrow> Inl TypeError
      | c # _ \<Rightarrow> Inr (list_all (\<lambda>card. card_suit card = card_suit c) cards))"

text \<open>The loop of checkStraight over neighbouring values.\<close>

fun steps_of_one :: "int list \<Rightarrow> bool" where
  "steps_of_one (a # b # rest) = (if a - b \<noteq> 1 then False else steps_of_one (b # rest))"
| "steps_of_one _ = True"

text \<open>
  \<open>checkStraight\<close> returns a number or \<open>null\<close>; on an empty array it returns
  \<open>values[0]\<close>, which is \<open>undefined\<close>. Both of the latter are \<open>None\<close>: the
  callers only test the result for truth and compare it with 14.
\<close>

definition checkStraight :: "card list \<Rightarrow> int option" where
  "checkStraight cards =
     (let values = js_sort (\<lambda>a b. b - a) (map card_value cards) in
      if steps_of_one values then js_index values 0
      else if js_index values 0 = Some 14 \<and> js_index values 1 = Some 5 \<and>
              js_index values 2 = Some 4 \<and> js_index values 3 = Some 3 \<and>
              js_index values 4 = Some 2
      then Some 5
      else None)"

text \<open>Truth of a number, \<open>null\<close> or \<open>undefined\<close>: 0 is falsy too.\<close>

definition truthy :: "int option \<Rightarrow> bool" where
  "truthy v = (case v of None \<Rightarrow> False | Some n \<Rightarrow> n \<noteq> 0)"

text \<open>
  \<open>groupByRank\<close> fills an object keyed by card value. The keys are the non-negative
  integers 2 to 14, which \<open>Object.values\<close> enumerates in ascending order whatever the
  order of insertion, so the object is an association list kept in ascending key order.
\<close>

fun group_add :: "card \<Rightarrow> (int \<times> card list) list \<Rightarrow> (int \<times> card list) list" where
  "group_add c [] = [(card_value c, [c])]"
| "group_add c ((k, g) # rest) =
     (if card_value c = k then (k, g @ [c]) # rest
      else if card_value c < k then (card_value c, [c]) # (k, g) # rest
      else (k, g) # group_add c rest)"

text \<open>\<open>g[0].value\<close> of a group; a group is never empty.\<close>

definition group_value :: "card list \<Rightarrow> int" where
  "group_value g = (case g of [] \<Rightarrow> 0 | c # _ \<Rightarrow> card_value c)"

definition groupByRank :: "card list \<Rightarrow> card list list" where
  "groupByRank cards =
     js_sort (\<lambda>a b. if int (length b) \<noteq> int (length a)
                     then int (length b) - int (length a)
                     else group_value b - group_value a)
       (map snd (foldl (\<lambda>groups c. group_add c groups) [] cards))"

definition evaluate5Cards :: "card list \<Rightarrow> error + hand" where
  "evaluate5Cards cards =
     (let sorted = js_sort (\<lambda>a b. card_value b - card_value a) cards in
      case checkFlush sorted of
        Inl e \<Rightarrow> Inl e
      | Inr isFlush \<Rightarrow>
          (let straightValue = checkStraight sorted;
               groups = groupByRank sorted in
           if isFlush \<and> straightValue = Some 14 then
             Inr \<lparr>ranking = 10, hand_name = ''Royal Flush'', hand_values = [14],
                  hand_cards = sorted\<rparr>
           else if isFlush \<and> truthy straightValue then
             Inr \<lparr>ranking = 9, hand_name = ''Straight Flush'',
                  hand_values = [the straightValue], hand_cards = sorted\<rparr>
           else if length groups = 2 \<and> length (groups ! 0) = 4 then
             Inr \<lparr>ranking = 8, hand_name = ''Four of a Kind'',
                  hand_values = [group_value (groups ! 0), group_value (groups ! 1)],
                  hand_cards = sorted\<rparr>
           else if length groups = 2 \<and> length (groups ! 0) = 3 \<and> length (groups ! 1) = 2 then
             Inr \<lparr>ranking = 7, hand_name = ''Full House'',
                  hand_values = [group_value (groups ! 0), group_value (groups ! 1)],
                  hand_cards = sorted\<rparr>
           else if isFlush then
             Inr \<lparr>ranking = 6, hand_name = ''Flush'',
                  hand_values = map card_value sorted, hand_cards = sorted\<rparr>
           else if truthy straightValue then
             Inr \<lparr>ranking = 5, hand_name = ''Straight'',
                  hand_values = [the straightValue], hand_cards = sorted\<rparr>
           else if length groups = 3 \<and> length (groups ! 0) = 3 then
             Inr \<lparr>ranking = 4, hand_name = ''Three of a Kind'',
                  hand_values = [group_value (groups ! 0), group_value (groups ! 1),
                                 group_value (groups ! 2)],
                  hand_cards = sorted\<rparr>
           else if length groups = 3 \<and> length (groups ! 0) = 2 \<and> length (groups ! 1) = 2 then
             Inr \<lparr>ranking = 3, hand_name = ''Two Pair'',
                  hand_values = [group_value (groups ! 0), group_value (groups ! 1),
                                 group_value (groups ! 2)],
                  hand_cards = sorted\<rparr>
           else if length groups = 4 \<and> length (groups ! 0) = 2 then
             Inr \<lparr>ranking = 2, hand_name = ''Pair'',
                  hand_values = [group_value (groups ! 0), group_value (groups ! 1),
                                 group_value (groups ! 2), group_value (groups ! 3)],
                  hand_cards = sorted\<rparr>
           else
             Inr \<lparr>ranking = 1, hand_name = ''High Card'',
                  hand_values = map card_value sorted, hand_cards = sorted\<rparr>))"

subsection \<open>evaluateHand and findBest5CardHand\<close>

text \<open>
  The loop shared by findBest5CardHand and the six-card branch of evaluateHand:
  \<open>bestHand\<close> starts as \<open>null\<close> (\<open>None\<close>) and is replaced by every hand that
  compares strictly greater.
\<close>

fun best_of :: "card list list \<Rightarrow> hand option \<Rightarrow> error + hand option" where
  "best_of [] bestHand = Inr bestHand"
| "best_of (combo # rest) bestHand =
     (case evaluate5Cards combo of
        Inl e \<Rightarrow> Inl e
      | Inr hand \<Rightarrow>
          (case bestHand of
             None \<Rightarrow> best_of rest (Some hand)
           | Some best \<Rightarrow>
               if compareHands hand best > 0 then best_of rest (Some hand)
               else best_of rest bestHand))"

definition findBest5CardHand :: "card list \<Rightarrow> error + hand option" where
  "findBest5CardHand cards = best_of (getCombinations cards 5) None"

definition evaluateHand :: "card list \<Rightarrow> error + hand option" where
  "evaluateHand cards =
     (if length cards < 5 then Inl (Error ''Need at least 5 cards to evaluate a hand'')
      else if length cards = 7 then findBest5CardHand cards
      else if length cards = 6 then best_of (getCombinations cards 5) None
      else map_sum id Some (evaluate5Cards cards))"

section \<open>Players\<close>

text \<open>
  The fields of class Player that the rules engine reads or writes. The display fields
  (\<open>lastAction\<close>), the unused \<open>isActive\<close> and the bot's \<open>personality\<close> and
  \<open>decisionEngine\<close> objects are left out.
\<close>

record player =
  player_id :: nat
  player_name :: string
  stack :: int
  isHuman :: bool
  holeCards :: "card list"
  player_currentBet :: int
  totalBet :: int
  folded :: bool
  allIn :: bool

text \<open>The constructor of class Player.\<close>

definition Player :: "nat \<Rightarrow> string \<Rightarrow> int \<Rightarrow> bool \<Rightarrow> player" where
  "Player i n s human =
     \<lparr>player_id = i, player_name = n, stack = s, isHuman = human, holeCards = [],
      player_currentBet = 0, totalBet = 0, folded = False, allIn = False\<rparr>"

section \<open>JavaScript objects keyed by player id\<close>

text \<open>
  \<open>obj[k]\<close> is \<open>map_of obj k\<close>, \<open>obj[k] = v\<close> is \<open>AList.update k v obj\<close> and
  \<open>Object.values(obj)\<close> lists the value of every key once. The engine only sorts or
  sums that list, so the order of the keys is left as it is in the association list.
\<close>

type_synonym 'v js_object = "(nat \<times> 'v) list"

definition Object_values :: "'v js_object \<Rightarrow> 'v list" where
  "Object_values obj = map snd (AList.clearjunk obj)"

text \<open>\<open>obj[k] || 0\<close> for a dictionary of numbers.\<close>

definition lookup_or_0 :: "int js_object \<Rightarrow> nat \<Rightarrow> int" where
  "lookup_or_0 obj k = (case map_of obj k of None \<Rightarrow> 0 | Some v \<Rightarrow> if v \<noteq> 0 then v else 0)"

section \<open>PotManager\<close>

record pot =
  pot_amount :: int
  eligiblePlayers :: "nat list"

subsection \<open>createPots\<close>

text \<open>
  The inner loop of createPots over the players, for one bet level: it adds each
  contribution to \<open>pot.amount\<close> and records who is eligible.
\<close>

fun add_contributions :: "player list \<Rightarrow> int js_object \<Rightarrow> int \<Rightarrow> int \<Rightarrow> pot \<Rightarrow> pot" where
  "add_contributions [] currentBets level previousLevel pot = pot"
| "add_contributions (player # rest) currentBets level previousLevel pot =
     (let playerBet = lookup_or_0 currentBets (player_id player) in
      if playerBet \<ge> level then
        (let contribution = min level playerBet - previousLevel;
             pot1 = pot\<lparr>pot_amount := pot_amount pot + contribution\<rparr>;
             pot2 = (if \<not> folded player \<and> playerBet \<ge> level
                     then (if player_id player \<notin> set (eligiblePlayers pot1)
                           then pot1\<lparr>eligiblePlayers := eligiblePlayers pot1 @ [player_id player]\<rparr>
                           else pot1)
                     else pot1)
         in add_contributions rest currentBets level previousLevel pot2)
      else add_contributions rest currentBets level previousLevel pot)"

text \<open>
  The outer loop over the bet levels; \<open>pots\<close> is \<open>this.pots\<close> so far.
\<close>

fun createPots_levels ::
  "int list \<Rightarrow> player list \<Rightarrow> int js_object \<Rightarrow> int \<Rightarrow> pot list \<Rightarrow> pot list" where
  "createPots_levels [] players currentBets previousLevel pots = pots"
| "createPots_levels (level # rest) players currentBets previousLevel pots =
     (let pot = add_contributions players currentBets level previousLevel
                  \<lparr>pot_amount = 0, eligiblePlayers = []\<rparr>
      in createPots_levels rest players currentBets level
           (if pot_amount pot > 0 then pots @ [pot] else pots))"

text \<open>
  createPots returns the new value of \<open>this.pots\<close>. The list is emptied first, and the
  early return leaves it empty.
\<close>

definition createPots :: "player list \<Rightarrow> int js_object \<Rightarrow> pot list" where
  "createPots players currentBets =
     (let betLevels = js_sort (\<lambda>a b. a - b) (remdups (Object_values currentBets)) in
      if length betLevels = 0 \<or> js_index betLevels 0 = Some 0 then []
      else createPots_levels betLevels players currentBets 0 [])"

text \<open>
  For the analysis of the two loops: the chips that one player with the bet \<open>b\<close>
  adds to the pots of the levels \<open>ls\<close>, the level before them being \<open>prev\<close>.
  It is the sum over the levels of the \<open>contribution\<close> of the inner loop.
\<close>

fun ladder_share :: "int list \<Rightarrow> int \<Rightarrow> int \<Rightarrow> int" where
  "ladder_share [] prev b = 0"
| "ladder_share (l # ls) prev b = (if b \<ge> l then min l b - prev else 0) + ladder_share ls l b"

definition getTotalPot :: "pot list \<Rightarrow> int" where
  "getTotalPot pots = foldl (\<lambda>sum pot. sum + pot_amount pot) 0 pots"

subsection \<open>distributePots\<close>

datatype op_type = Win | Return

record operation =
  playerId :: nat
  op_amount :: int
  op_type :: op_type
  op_hand :: "hand option"

text \<open>
  The loop that finds the winners among the eligible players. \<open>bestHand\<close> is
  \<open>None\<close> while it is \<open>null\<close> or \<open>undefined\<close>; a player without an entry in
  \<open>handEvaluations\<close> has the hand \<open>undefined\<close>, and comparing it with a best hand
  throws, because compareHands reads \<open>hand1.ranking\<close>.
\<close>

fun find_winners ::
  "player list \<Rightarrow> (nat \<rightharpoonup> hand) \<Rightarrow> hand option \<Rightarrow> player list \<Rightarrow> error + player list" where
  "find_winners [] handEvaluations bestHand winners = Inr winners"
| "find_winners (player # rest) handEvaluations bestHand winners =
     (let playerHand = handEvaluations (player_id player) in
      case bestHand of
        None \<Rightarrow> find_winners rest handEvaluations playerHand [player]
      | Some best \<Rightarrow>
          (case playerHand of
             None \<Rightarrow> Inl TypeError
           | Some h \<Rightarrow>
               (let comparison = compareHands h best in
                if comparison > 0 then find_winners rest handEvaluations playerHand [player]
                else if comparison = 0
                then find_winners rest handEvaluations bestHand (winners @ [player])
                else find_winners rest handEvaluations bestHand winners)))"

text \<open>
  \<open>Math.floor(a / n)\<close> and \<open>a % n\<close> for a positive count \<open>n\<close>: the quotient is
  rounded down, the remainder takes the sign of \<open>a\<close>.
\<close>

definition js_floor_div :: "int \<Rightarrow> int \<Rightarrow> int" where
  "js_floor_div a n = a div n"

definition js_rem :: "int \<Rightarrow> int \<Rightarrow> int" where
  "js_rem a n = sgn a * (\<bar>a\<bar> mod \<bar>n\<bar>)"

text \<open>The loop over \<open>winners[i]\<close> that pushes one win operation for each winner.\<close>

fun win_operations ::
  "nat \<Rightarrow> player list \<Rightarrow> int \<Rightarrow> int \<Rightarrow> (nat \<rightharpoonup> hand) \<Rightarrow> operation list" where
  "win_operations i [] share remainder handEvaluations = []"
| "win_operations i (w # ws) share remainder handEvaluations =
     \<lparr>playerId = player_id w,
      op_amount = (if i = 0 then share + remainder else share),
      op_type = Win,
      op_hand = handEvaluations (player_id w)\<rparr>
     # win_operations (i + 1) ws share remainder handEvaluations"

text \<open>The body of the loop over the pots: the operations pushed for one pot.\<close>

definition distributePot :: "pot \<Rightarrow> player list \<Rightarrow> (nat \<rightharpoonup> hand) \<Rightarrow> error + operation list" where
  "distributePot pot players handEvaluations =
     (let eligible = filter (\<lambda>p. player_id p \<in> set (eligiblePlayers pot) \<and> \<not> folded p) players in
      if length eligible = 0 then Inr []
      else if length eligible = 1 then
        Inr [\<lparr>playerId = player_id (eligible ! 0), op_amount = pot_amount pot,
              op_type = Return, op_hand = None\<rparr>]
      else
        (case find_winners eligible handEvaluations None [] of
           Inl e \<Rightarrow> Inl e
         | Inr winners \<Rightarrow>
             (let share = js_floor_div (pot_amount pot) (int (length winners));
                  remainder = js_rem (pot_amount pot) (int (length winners))
              in Inr (win_operations 0 winners share remainder handEvaluations))))"

fun distributePots_loop ::
  "pot list \<Rightarrow> player list \<Rightarrow> (nat \<rightharpoonup> hand) \<Rightarrow> operation list \<Rightarrow> error + operation list" where
  "distributePots_loop [] players handEvaluations operations = Inr operations"
| "distributePots_loop (pot # rest) players handEvaluations operations =
     (case distributePot pot players handEvaluations of
        Inl e \<Rightarrow> Inl e
      | Inr ops \<Rightarrow> distributePots_loop rest players handEvaluations (operations @ ops))"

text \<open>\<open>distributePots\<close> of a PotManager whose \<open>this.pots\<close> is \<open>pots\<close>.\<close>

definition distributePots ::
  "pot list \<Rightarrow> player list \<Rightarrow> (nat \<rightharpoonup> hand) \<Rightarrow> error + operation list" where
  "distributePots pots players handEvaluations =
     distributePots_loop pots players handEvaluations []"

section \<open>The table engine\<close>

subsection \<open>Player methods\<close>

text \<open>\<open>Player.bet\<close> returns the player after the wager and the chips actually paid.\<close>

definition bet :: "player \<Rightarrow> int \<Rightarrow> player \<times> int" where
  "bet p amount =
     (let actualBet = min amount (stack p);
          p1 = p\<lparr>stack := stack p - actualBet,
                 player_currentBet := player_currentBet p + actualBet,
                 totalBet := totalBet p + actualBet\<rparr>;
          p2 = (if stack p1 = 0 then p1\<lparr>allIn := True\<rparr> else p1)
      in (p2, actualBet))"

definition win :: "player \<Rightarrow> int \<Rightarrow> player" where
  "win p amount = p\<lparr>stack := stack p + amount\<rparr>"

definition canAct :: "player \<Rightarrow> bool" where
  "canAct p \<longleftrightarrow> \<not> folded p \<and> \<not> allIn p \<and> stack p > 0"

definition reset :: "player \<Rightarrow> player" where
  "reset p = p\<lparr>holeCards := [], player_currentBet := 0, totalBet := 0,
               folded := False, allIn := False\<rparr>"

subsection \<open>The state of TexasHoldemGame\<close>

datatype game_state = WAITING | PRE_FLOP | FLOP | TURN | RIVER | SHOWDOWN | HAND_COMPLETE

datatype action = FOLD | CHECK | CALL | BET | RAISE | ALL_IN

text \<open>
  Of the events passed to the event callback, the two that report on the chips and on
  the end of the game are recorded, in the order in which they are emitted:
  \<open>IntegrityError expected found\<close> and \<open>GameOver\<close>. The other events and the action
  history only feed the display.
\<close>

datatype event = IntegrityError int int | GameOver

text \<open>
  \<open>pots\<close> is \<open>potManager.pots\<close> and \<open>deck\<close> is \<open>deck.cards\<close>. The field
  \<open>lastRaiserIndex\<close> is written but never read, and is left out. A step that the
  code schedules with \<open>setTimeout\<close> is not part of the call that schedules it; it
  is a call of its own on the state that this call leaves.
\<close>

record game =
  players :: "player list"
  deck :: "card list"
  communityCards :: "card list"
  pots :: "pot list"
  state :: game_state
  dealerIndex :: nat
  currentPlayerIndex :: nat
  currentBet :: int
  minRaise :: int
  smallBlind :: int
  bigBlind :: int
  handNumber :: nat
  waitingForHumanAction :: bool
  currentBets :: "int js_object"
  playersActedThisRound :: "bool js_object"
  emitted :: "event list"

text \<open>
  \<open>NotANumber\<close> is not an exception: it marks a call in which the code does
  arithmetic on \<open>undefined\<close> and goes on with \<open>NaN\<close> in a chip count. Chip counts
  are integers here, so the model of such a call ends with this value.
\<close>

datatype failure = Thrown error | NotANumber

subsection \<open>validateGameState\<close>

definition EXPECTED_TOTAL :: int where
  "EXPECTED_TOTAL = 6000"

text \<open>The value of \<open>currentTotal\<close> that validateGameState computes.\<close>

definition currentTotal :: "game \<Rightarrow> int" where
  "currentTotal s =
     foldl (\<lambda>total player. total + stack player) 0 (players s)
     + foldl (\<lambda>a b. a + b) 0 (Object_values (currentBets s))
     + getTotalPot (pots s)"

definition validateGameState :: "game \<Rightarrow> game" where
  "validateGameState s =
     (let total = currentTotal s;
          s1 = (if total \<noteq> EXPECTED_TOTAL
                then s\<lparr>emitted := emitted s @ [IntegrityError EXPECTED_TOTAL total]\<rparr>
                else s)
      in s1\<lparr>players :=
              map (\<lambda>player. if stack player = 0 \<and> \<not> allIn player \<and> \<not> folded player
                             then player\<lparr>allIn := True\<rparr> else player)
                (players s1)\<rparr>)"

subsection \<open>processPlayerAction\<close>

text \<open>
  The loop \<open>for (let p of this.players) if (p.id !== player.id)
  this.playersActedThisRound[p.id] = false\<close>.
\<close>

fun reset_action_tracking :: "player list \<Rightarrow> nat \<Rightarrow> bool js_object \<Rightarrow> bool js_object" where
  "reset_action_tracking [] pid acted = acted"
| "reset_action_tracking (p # ps) pid acted =
     reset_action_tracking ps pid
       (if player_id p \<noteq> pid then AList.update (player_id p) False acted else acted)"

definition moveToNextPlayer :: "game \<Rightarrow> game" where
  "moveToNextPlayer s =
     s\<lparr>currentPlayerIndex := (currentPlayerIndex s + 1) mod length (players s)\<rparr>"

text \<open>
  The \<open>switch\<close> of processPlayerAction. The acting player is \<open>this.players[i]\<close>
  and \<open>paid\<close> is \<open>this.currentBets[player.id]\<close>. When that entry is
  \<open>undefined\<close>, \<open>callAmount\<close> and the entry after \<open>+=\<close> are \<open>NaN\<close>; fold
  and check use neither.
\<close>

fun apply_action ::
  "game \<Rightarrow> nat \<Rightarrow> player \<Rightarrow> int option \<Rightarrow> action \<Rightarrow> int \<Rightarrow> failure + game" where
  "apply_action s i player paid FOLD amount =
     Inr (s\<lparr>players := (players s)[i := player\<lparr>folded := True\<rparr>]\<rparr>)"
| "apply_action s i player paid CHECK amount = Inr s"
| "apply_action s i player paid CALL amount =
     (case paid of
        None \<Rightarrow> Inl NotANumber
      | Some already \<Rightarrow>
          (let callAmount = currentBet s - already;
               (player', actualCall) = bet player callAmount
           in Inr (s\<lparr>players := (players s)[i := player'],
                     currentBets := AList.update (player_id player) (already + actualCall)
                                      (currentBets s)\<rparr>)))"
| "apply_action s i player paid BET amount =
     (case paid of
        None \<Rightarrow> Inl NotANumber
      | Some already \<Rightarrow>
          (let (player', betAmount) = bet player amount
           in Inr (s\<lparr>players := (players s)[i := player'],
                     currentBets := AList.update (player_id player) (already + betAmount)
                                      (currentBets s),
                     currentBet := already + betAmount,
                     minRaise := betAmount,
                     playersActedThisRound :=
                       reset_action_tracking (players s) (player_id player)
                         (playersActedThisRound s)\<rparr>)))"
| "apply_action s i player paid RAISE amount =
     (case paid of
        None \<Rightarrow> Inl NotANumber
      | Some already \<Rightarrow>
          (let callAmount = currentBet s - already;
               (player', raiseAmount) = bet player amount
           in Inr (s\<lparr>players := (players s)[i := player'],
                     currentBets := AList.update (player_id player) (already + raiseAmount)
                                      (currentBets s),
                     currentBet := already + raiseAmount,
                     minRaise := raiseAmount - callAmount,
                     playersActedThisRound :=
                       reset_action_tracking (players s) (player_id player)
                         (playersActedThisRound s)\<rparr>)))"
| "apply_action s i player paid ALL_IN amount =
     (case paid of
        None \<Rightarrow> Inl NotANumber
      | Some already \<Rightarrow>
          (let (player', allInAmount) = bet player (stack player);
               s1 = s\<lparr>players := (players s)[i := player'],
                      currentBets := AList.update (player_id player) (already + allInAmount)
                                       (currentBets s)\<rparr>
           in if already + allInAmount > currentBet s
              then Inr (s1\<lparr>currentBet := already + allInAmount,
                                 playersActedThisRound :=
                             reset_action_tracking (players s) (player_id player)
                               (playersActedThisRound s1)\<rparr>)
              else Inr s1))"

text \<open>
  processPlayerAction up to the call of moveToNextPlayer, which sets the next index and
  schedules processNextAction. The update of the bots' statistics touches no field of
  the game.
\<close>

definition processPlayerAction :: "game \<Rightarrow> nat \<Rightarrow> action \<Rightarrow> int \<Rightarrow> failure + game" where
  "processPlayerAction s i action amount =
     (case js_index (players s) i of
        None \<Rightarrow> Inl (Thrown TypeError)
      | Some player \<Rightarrow>
          (let paid = map_of (currentBets s) (player_id player);
               s1 = s\<lparr>playersActedThisRound :=
                        AList.update (player_id player) True (playersActedThisRound s)\<rparr>
           in case apply_action s1 i player paid action amount of
                Inl e \<Rightarrow> Inl e
              | Inr s2 \<Rightarrow> Inr (moveToNextPlayer (validateGameState s2))))"

subsection \<open>isBettingRoundComplete\<close>

text \<open>
  \<open>!this.playersActedThisRound[id]\<close> holds for a missing entry as for \<open>false\<close>;
  \<open>this.currentBets[id] < this.currentBet\<close> is false for a missing entry.
\<close>

definition isBettingRoundComplete :: "game \<Rightarrow> bool" where
  "isBettingRoundComplete s =
     (let activePlayers = filter canAct (players s) in
      if length activePlayers = 0 then True
      else if list_ex (\<lambda>player. canAct player \<and>
                  map_of (playersActedThisRound s) (player_id player) \<noteq> Some True) (players s)
      then False
      else if list_ex (\<lambda>player. canAct player \<and>
                  (case map_of (currentBets s) (player_id player) of
                     None \<Rightarrow> False
                   | Some paid \<Rightarrow> paid < currentBet s)) (players s)
      then False
      else True)"

subsection \<open>The human player's actions\<close>

definition humanAllIn :: "game \<Rightarrow> failure + game" where
  "humanAllIn s =
     (if \<not> waitingForHumanAction s then Inr s
      else case js_index (players s) 0 of
             None \<Rightarrow> Inl (Thrown TypeError)
           | Some human \<Rightarrow>
               processPlayerAction (s\<lparr>waitingForHumanAction := False\<rparr>) 0 ALL_IN (stack human))"

definition humanFold :: "game \<Rightarrow> failure + game" where
  "humanFold s =
     (if \<not> waitingForHumanAction s then Inr s
      else processPlayerAction (s\<lparr>waitingForHumanAction := False\<rparr>) 0 FOLD 0)"

definition humanCheck :: "game \<Rightarrow> failure + game" where
  "humanCheck s =
     (if \<not> waitingForHumanAction s then Inr s
      else case js_index (players s) 0 of
             None \<Rightarrow> Inl (Thrown TypeError)
           | Some human \<Rightarrow>
               (case map_of (currentBets s) (player_id human) of
                  None \<Rightarrow> processPlayerAction (s\<lparr>waitingForHumanAction := False\<rparr>) 0 CHECK 0
                | Some paid \<Rightarrow>
                    if currentBet s - paid > 0 then Inr s
                    else processPlayerAction (s\<lparr>waitingForHumanAction := False\<rparr>) 0 CHECK 0))"

text \<open>
  With no entry for the human in \<open>currentBets\<close> the call amount is \<open>NaN\<close>, the
  comparison with the stack is false and the call action is processed with \<open>NaN\<close>.
\<close>

definition humanCall :: "game \<Rightarrow> failure + game" where
  "humanCall s =
     (if \<not> waitingForHumanAction s then Inr s
      else case js_index (players s) 0 of
             None \<Rightarrow> Inl (Thrown TypeError)
           | Some human \<Rightarrow>
               (case map_of (currentBets s) (player_id human) of
                  None \<Rightarrow> Inl NotANumber
                | Some paid \<Rightarrow>
                    (let callAmount = currentBet s - paid in
                     if callAmount \<ge> stack human then humanAllIn s
                     else processPlayerAction (s\<lparr>waitingForHumanAction := False\<rparr>) 0 CALL
                            callAmount)))"

definition humanBet :: "game \<Rightarrow> int \<Rightarrow> failure + game" where
  "humanBet s amount =
     (if \<not> waitingForHumanAction s then Inr s
      else case js_index (players s) 0 of
             None \<Rightarrow> Inl (Thrown TypeError)
           | Some human \<Rightarrow>
               if amount \<ge> stack human then humanAllIn s
               else processPlayerAction (s\<lparr>waitingForHumanAction := False\<rparr>) 0 BET amount)"

definition humanRaise :: "game \<Rightarrow> int \<Rightarrow> failure + game" where
  "humanRaise s amount =
     (if \<not> waitingForHumanAction s then Inr s
      else case js_index (players s) 0 of
             None \<Rightarrow> Inl (Thrown TypeError)
           | Some human \<Rightarrow>
               if amount \<ge> stack human then humanAllIn s
               else processPlayerAction (s\<lparr>waitingForHumanAction := False\<rparr>) 0 RAISE amount)"

subsection \<open>Dealing\<close>

text \<open>\<open>Deck.deal(count)\<close>: the cards dealt and the cards left.\<close>

definition deal :: "card list \<Rightarrow> nat \<Rightarrow> card list \<times> card list" where
  "deal cards count = (take count cards, drop count cards)"

definition SUITS :: "suit list" where
  "SUITS = [Spades, Hearts, Diamonds, Clubs]"

definition RANKS :: "rank list" where
  "RANKS = [R2, R3, R4, R5, R6, R7, R8, R9, R10, RJ, RQ, RK, RA]"

text \<open>
  The 52 cards in the order in which \<open>Deck.reset\<close> builds them, before it shuffles.
  The shuffle is random; every function that resets the deck takes the shuffled deck
  as an argument.
\<close>

definition unshuffled :: "card list" where
  "unshuffled = concat (map (\<lambda>s. map (\<lambda>r. Card s r) RANKS) SUITS)"

fun deal_hole_cards :: "player list \<Rightarrow> card list \<Rightarrow> player list \<times> card list" where
  "deal_hole_cards [] cards = ([], cards)"
| "deal_hole_cards (player # rest) cards =
     (let (dealt, cards1) = deal cards 2;
          (rest', cards2) = deal_hole_cards rest cards1
      in (player\<lparr>holeCards := dealt\<rparr> # rest', cards2))"

definition dealHoleCards :: "game \<Rightarrow> game" where
  "dealHoleCards s =
     (let (players', cards) = deal_hole_cards (players s) (deck s)
      in s\<lparr>players := players', deck := cards\<rparr>)"

definition dealFlop :: "game \<Rightarrow> game" where
  "dealFlop s =
     (let (burn, cards1) = deal (deck s) 1;
          (flop, cards2) = deal cards1 3
      in s\<lparr>deck := cards2, communityCards := flop, state := FLOP\<rparr>)"

definition dealTurn :: "game \<Rightarrow> game" where
  "dealTurn s =
     (let (burn, cards1) = deal (deck s) 1;
          (turn, cards2) = deal cards1 1
      in s\<lparr>deck := cards2, communityCards := communityCards s @ turn, state := TURN\<rparr>)"

definition dealRiver :: "game \<Rightarrow> game" where
  "dealRiver s =
     (let (burn, cards1) = deal (deck s) 1;
          (river, cards2) = deal cards1 1
      in s\<lparr>deck := cards2, communityCards := communityCards s @ river, state := RIVER\<rparr>)"

subsection \<open>Showdown and the end of a hand\<close>

definition completeHand :: "game \<Rightarrow> game" where
  "completeHand s = s\<lparr>state := HAND_COMPLETE\<rparr>"

text \<open>The loop of showdown that fills \<open>handEvaluations\<close>.\<close>

fun evaluate_players ::
  "player list \<Rightarrow> card list \<Rightarrow> (nat \<rightharpoonup> hand) \<Rightarrow> error + (nat \<rightharpoonup> hand)" where
  "evaluate_players [] community handEvaluations = Inr handEvaluations"
| "evaluate_players (player # rest) community handEvaluations =
     (case evaluateHand (holeCards player @ community) of
        Inl e \<Rightarrow> Inl e
      | Inr h \<Rightarrow> evaluate_players rest community (handEvaluations(player_id player := h)))"

text \<open>
  \<open>players.find(pred)\<close> gives the first player that satisfies the predicate, or
  \<open>undefined\<close>. The player is an object that the caller then changes in place, so
  the model finds its index.
\<close>

fun find_position :: "('a \<Rightarrow> bool) \<Rightarrow> 'a list \<Rightarrow> nat option" where
  "find_position P [] = None"
| "find_position P (x # xs) = (if P x then Some 0 else map_option Suc (find_position P xs))"

text \<open>
  The loop of showdown over the results; \<open>player.win\<close> throws when no player has
  the id.
\<close>

fun pay_results :: "operation list \<Rightarrow> player list \<Rightarrow> error + player list" where
  "pay_results [] ps = Inr ps"
| "pay_results (result # rest) ps =
     (case find_position (\<lambda>p. player_id p = playerId result) ps of
        None \<Rightarrow> Inl TypeError
      | Some j \<Rightarrow> pay_results rest (ps[j := win (ps ! j) (op_amount result)]))"

definition showdown :: "game \<Rightarrow> failure + game" where
  "showdown s =
     (let s1 = s\<lparr>state := SHOWDOWN, pots := createPots (players s) (currentBets s)\<rparr>;
          activePlayers = filter (\<lambda>p. \<not> folded p) (players s1)
      in case evaluate_players activePlayers (communityCards s1) Map.empty of
           Inl e \<Rightarrow> Inl (Thrown e)
         | Inr handEvaluations \<Rightarrow>
             (case distributePots (pots s1) (players s1) handEvaluations of
                Inl e \<Rightarrow> Inl (Thrown e)
              | Inr results \<Rightarrow>
                  (case pay_results results (players s1) of
                     Inl e \<Rightarrow> Inl (Thrown e)
                   | Inr players' \<Rightarrow> Inr (validateGameState (s1\<lparr>players := players'\<rparr>)))))"

definition handleSinglePlayerWin :: "game \<Rightarrow> failure + game" where
  "handleSinglePlayerWin s =
     (let s1 = s\<lparr>pots := createPots (players s) (currentBets s)\<rparr>;
          pot = getTotalPot (pots s1)
      in case find_position (\<lambda>p. \<not> folded p) (players s) of
           None \<Rightarrow> Inl (Thrown TypeError)
         | Some j \<Rightarrow> Inr (s1\<lparr>players := (players s)[j := win (players s ! j) pot]\<rparr>))"

subsection \<open>The end of a betting round\<close>

definition progressGameState :: "game \<Rightarrow> failure + game" where
  "progressGameState s =
     (case state s of
        PRE_FLOP \<Rightarrow> Inr (dealFlop s)
      | FLOP \<Rightarrow> Inr (dealTurn s)
      | TURN \<Rightarrow> Inr (dealRiver s)
      | RIVER \<Rightarrow> showdown s
      | SHOWDOWN \<Rightarrow> Inr (completeHand s)
      | _ \<Rightarrow> Inr s)"

text \<open>The loop \<open>for (let player of this.players) this.currentBets[player.id] = 0\<close>.\<close>

fun reset_bets :: "player list \<Rightarrow> int js_object \<Rightarrow> int js_object" where
  "reset_bets [] bets = bets"
| "reset_bets (p # ps) bets = reset_bets ps (AList.update (player_id p) 0 bets)"

definition completeBettingRound :: "game \<Rightarrow> failure + game" where
  "completeBettingRound s =
     (let s1 = s\<lparr>pots := createPots (players s) (currentBets s)\<rparr>;
          s2 = s1\<lparr>currentBets := reset_bets (players s1) (currentBets s1), currentBet := 0\<rparr>
      in progressGameState s2)"

subsection \<open>Whose turn it is\<close>

definition processNextAction :: "game \<Rightarrow> failure + game" where
  "processNextAction s =
     (let activePlayers = filter canAct (players s) in
      if length activePlayers = 0 then completeBettingRound s
      else if length activePlayers = 1 \<and> length (filter (\<lambda>p. \<not> folded p) (players s)) = 1
      then handleSinglePlayerWin s
      else if isBettingRoundComplete s then completeBettingRound s
      else (case js_index (players s) (currentPlayerIndex s) of
              None \<Rightarrow> Inl (Thrown TypeError)
            | Some currentPlayer \<Rightarrow>
                if \<not> canAct currentPlayer then Inr (moveToNextPlayer s)
                else if isHuman currentPlayer then Inr (s\<lparr>waitingForHumanAction := True\<rparr>)
                else Inr s))"

text \<open>
  The loop \<open>while (!this.players[i].canAct()) i = (i + 1) % this.players.length\<close> of
  startBettingRound. It does not end when no player can act.
\<close>

partial_function (option) first_to_act :: "player list \<Rightarrow> nat \<Rightarrow> (failure + nat) option" where
  "first_to_act ps i =
     (case js_index ps i of
        None \<Rightarrow> Some (Inl (Thrown TypeError))
      | Some p \<Rightarrow> if canAct p then Some (Inr i) else first_to_act ps ((i + 1) mod length ps))"

declare first_to_act.simps [code]

fun mark_not_acted :: "player list \<Rightarrow> bool js_object \<Rightarrow> bool js_object" where
  "mark_not_acted [] acted = acted"
| "mark_not_acted (p # ps) acted = mark_not_acted ps (AList.update (player_id p) False acted)"

definition startBettingRound :: "game \<Rightarrow> (failure + game) option" where
  "startBettingRound s =
     (let s1 = s\<lparr>playersActedThisRound := mark_not_acted (players s) []\<rparr>;
          s2 = (if state s1 = PRE_FLOP
                then s1\<lparr>currentPlayerIndex := (dealerIndex s1 + 3) mod length (players s1)\<rparr>
                else s1\<lparr>currentPlayerIndex := (dealerIndex s1 + 1) mod length (players s1),
                        currentBet := 0\<rparr>)
      in case first_to_act (players s2) (currentPlayerIndex s2) of
           None \<Rightarrow> None
         | Some (Inl e) \<Rightarrow> Some (Inl e)
         | Some (Inr i) \<Rightarrow> Some (processNextAction (s2\<lparr>currentPlayerIndex := i\<rparr>)))"

subsection \<open>Starting a hand\<close>

text \<open>The constructor; \<open>cards\<close> is the deck as the constructor of Deck shuffled it.\<close>

definition TexasHoldemGame :: "card list \<Rightarrow> game" where
  "TexasHoldemGame cards =
     \<lparr>players = [], deck = cards, communityCards = [], pots = [], state = WAITING,
      dealerIndex = 0, currentPlayerIndex = 0, currentBet = 0, minRaise = 0,
      smallBlind = 5, bigBlind = 10, handNumber = 0, waitingForHumanAction = False,
      currentBets = [], playersActedThisRound = [], emitted = []\<rparr>"

definition initializePlayers :: "game \<Rightarrow> game" where
  "initializePlayers s =
     s\<lparr>players := players s @
          [Player 0 ''You'' 1000 True, Player 1 ''Sarah'' 1000 False,
           Player 2 ''Mike'' 1000 False, Player 3 ''Emma'' 1000 False,
           Player 4 ''Jake'' 1000 False, Player 5 ''Alex'' 1000 False]\<rparr>"

definition postBlinds :: "game \<Rightarrow> failure + game" where
  "postBlinds s =
     (let sbIndex = (dealerIndex s + 1) mod length (players s);
          bbIndex = (dealerIndex s + 2) mod length (players s)
      in case js_index (players s) sbIndex of
           None \<Rightarrow> Inl (Thrown TypeError)
         | Some sbPlayer \<Rightarrow>
             (let (sbPlayer', sbAmount) = bet sbPlayer (smallBlind s);
                  players1 = (players s)[sbIndex := sbPlayer']
              in case js_index players1 bbIndex of
                   None \<Rightarrow> Inl (Thrown TypeError)
                 | Some bbPlayer \<Rightarrow>
                     (let (bbPlayer', bbAmount) = bet bbPlayer (bigBlind s);
                          players2 = players1[bbIndex := bbPlayer']
                      in Inr (s\<lparr>players := players2,
                                currentBets :=
                                  AList.update (player_id bbPlayer) bbAmount
                                    (AList.update (player_id sbPlayer) sbAmount (currentBets s)),
                                currentBet := bigBlind s\<rparr>))))"

text \<open>The loop of startNewHand that resets every player and enters a zero bet.\<close>

fun zero_bets :: "player list \<Rightarrow> int js_object \<Rightarrow> int js_object" where
  "zero_bets [] bets = bets"
| "zero_bets (p # ps) bets = zero_bets ps (AList.update (player_id p) 0 bets)"

definition startNewHand :: "game \<Rightarrow> card list \<Rightarrow> (failure + game) option" where
  "startNewHand s shuffled =
     (let s1 = s\<lparr>handNumber := handNumber s + 1, deck := shuffled, communityCards := [],
                 pots := [], currentBet := 0, minRaise := bigBlind s,
                 currentBets := [], waitingForHumanAction := False\<rparr>;
          s2 = s1\<lparr>players := map reset (players s1),
                  currentBets := zero_bets (players s1) (currentBets s1)\<rparr>;
          s3 = s2\<lparr>players := filter (\<lambda>p. stack p > 0) (players s2)\<rparr>
      in if length (players s3) < 2
         then Some (Inr (s3\<lparr>emitted := emitted s3 @ [GameOver]\<rparr>))
         else (let s4 = s3\<lparr>dealerIndex := (dealerIndex s3 + 1) mod length (players s3)\<rparr>
               in case postBlinds s4 of
                    Inl e \<Rightarrow> Some (Inl e)
                  | Inr s5 \<Rightarrow> startBettingRound ((dealHoleCards s5)\<lparr>state := PRE_FLOP\<rparr>)))"

subsection \<open>Positions relative to the dealer\<close>

text \<open>
  The local constant \<open>positionFromDealer\<close> of getPlayerPosition, for the player at
  \<open>playerIndex\<close> in \<open>this.players\<close>: 0 is the dealer, 1 the seat after the dealer.
\<close>

definition positionFromDealer :: "game \<Rightarrow> nat \<Rightarrow> int" where
  "positionFromDealer s playerIndex =
     js_rem (int playerIndex - int (dealerIndex s) + int (length (players s)))
            (int (length (players s)))"

definition getPlayerPosition :: "game \<Rightarrow> nat \<Rightarrow> string" where
  "getPlayerPosition s playerIndex =
     (if positionFromDealer s playerIndex \<le> 2 then ''early''
      else if positionFromDealer s playerIndex \<le> 4 then ''middle''
      else ''late'')"

section \<open>Playing a hand call by call\<close>

text \<open>
  A run of the engine is a sequence of calls: the calls that the user interface makes
  and the calls that the engine schedules with \<open>setTimeout\<close>. \<open>and_then\<close> makes the
  next call on the state that the run has reached; a failure ends the run, and so does a
  call that does not return (\<open>None\<close>).
\<close>

definition and_then ::
  "(failure + game) option \<Rightarrow> (game \<Rightarrow> failure + game) \<Rightarrow> (failure + game) option" where
  "and_then run call =
     (case run of
        None \<Rightarrow> None
      | Some (Inl e) \<Rightarrow> Some (Inl e)
      | Some (Inr s) \<Rightarrow> Some (call s))"

definition and_then_round ::
  "(failure + game) option \<Rightarrow> (game \<Rightarrow> (failure + game) option) \<Rightarrow> (failure + game) option" where
  "and_then_round run call =
     (case run of
        None \<Rightarrow> None
      | Some (Inl e) \<Rightarrow> Some (Inl e)
      | Some (Inr s) \<Rightarrow> call s)"

text \<open>
  \<open>processBotAction\<close> for the bot whose turn it is, \<open>this.players[currentPlayerIndex]\<close>.
  The decision comes from the bot's decision engine, which draws random numbers; it is
  an argument here.
\<close>

definition processBotAction :: "action \<Rightarrow> int \<Rightarrow> game \<Rightarrow> failure + game" where
  "processBotAction decision_action decision_amount s =
     processPlayerAction s (currentPlayerIndex s) decision_action decision_amount"

text \<open>
  One action of a bot, or of the human through \<open>act\<close>, followed by the call of
  processNextAction that moveToNextPlayer schedules.
\<close>

definition bot_turn :: "action \<Rightarrow> int \<Rightarrow> (failure + game) option \<Rightarrow> (failure + game) option" where
  "bot_turn a amount run =
     and_then (and_then run (processBotAction a amount)) processNextAction"

definition human_turn ::
  "(game \<Rightarrow> failure + game) \<Rightarrow> (failure + game) option \<Rightarrow> (failure + game) option" where
  "human_turn act run = and_then (and_then run act) processNextAction"

text \<open>
  The first hand of a new table, the deck left in the order of \<open>unshuffled\<close>. The
  dealer index becomes 1, seat 2 posts the small blind of 5 and seat 3 the big blind of
  10, and seat 4 acts first.
\<close>

definition first_hand :: "(failure + game) option" where
  "first_hand = startNewHand (initializePlayers (TexasHoldemGame unshuffled)) unshuffled"

text \<open>Before the flop every player calls and the big blind checks.\<close>

definition first_hand_flop :: "(failure + game) option" where
  "first_hand_flop =
     bot_turn CHECK 0 (bot_turn CALL 5 (bot_turn CALL 10 (human_turn humanCall
       (bot_turn CALL 10 (bot_turn CALL 10 first_hand)))))"

text \<open>One betting round in which all six players check, seat 2 first.\<close>

definition all_check :: "(failure + game) option \<Rightarrow> (failure + game) option" where
  "all_check run =
     bot_turn CHECK 0 (human_turn humanCheck (bot_turn CHECK 0 (bot_turn CHECK 0
       (bot_turn CHECK 0 (bot_turn CHECK 0 (and_then_round run startBettingRound))))))"

definition first_hand_turn :: "(failure + game) option" where
  "first_hand_turn = all_check first_hand_flop"

definition first_hand_showdown :: "(failure + game) option" where
  "first_hand_showdown = all_check (all_check first_hand_turn)"

text \<open>
  The same first hand, except that seat 4 folds at once; the others call and the big
  blind checks.
\<close>

definition first_hand_fold_flop :: "(failure + game) option" where
  "first_hand_fold_flop =
     bot_turn CHECK 0 (bot_turn CALL 5 (bot_turn CALL 10 (human_turn humanCall
       (bot_turn CALL 10 (bot_turn FOLD 0 first_hand)))))"

text \<open>What validateGameState looks at, and what it reports.\<close>

definition chips :: "(failure + game) option \<Rightarrow>
    (game_state \<times> int list \<times> int list \<times> int list \<times> int \<times> event list) option" where
  "chips run =
     (case run of
        Some (Inr s) \<Rightarrow>
          Some (state s, map stack (players s), Object_values (currentBets s),
                map pot_amount (pots s), currentTotal s, emitted s)
      | _ \<Rightarrow> None)"





section \<open>Properties of the hand comparator\<close>

subsection \<open>The comparator is a total preorder\<close>

lemma value_or_0_past_end: "length vs \<le> i \<Longrightarrow> value_or_0 vs i = 0"
  by (simp add: value_or_0_def)

lemma compareValues_flip: "compareValues i v2 v1 = - compareValues i v1 v2"
proof (induction i v1 v2 rule: compareValues.induct)
  case (1 i v1 v2)
  show ?case
  proof (cases "i < max (length v1) (length v2)")
    case True
    then have t: "i < max (length v2) (length v1)" by (simp add: max.commute)
    show ?thesis
    proof (cases "value_or_0 v1 i = value_or_0 v2 i")
      case True
      with 1 \<open>i < max (length v1) (length v2)\<close> t show ?thesis
        by (simp add: compareValues.simps [of i v1 v2] compareValues.simps [of i v2 v1])
    next
      case False
      with \<open>i < max (length v1) (length v2)\<close> t show ?thesis
        by (simp add: compareValues.simps [of i v1 v2] compareValues.simps [of i v2 v1])
    qed
  next
    case False
    then have "\<not> i < max (length v2) (length v1)" by (simp add: max.commute)
    with False show ?thesis
      by (simp add: compareValues.simps [of i v1 v2] compareValues.simps [of i v2 v1])
  qed
qed

lemma compareValues_zero_iff:
  "compareValues i v1 v2 = 0 \<longleftrightarrow> (\<forall>j\<ge>i. value_or_0 v1 j = value_or_0 v2 j)"
proof (induction i v1 v2 rule: compareValues.induct)
  case (1 i v1 v2)
  show ?case
  proof (cases "i < max (length v1) (length v2)")
    case inside: True
    show ?thesis
    proof (cases "value_or_0 v1 i = value_or_0 v2 i")
      case True
      have "(\<forall>j\<ge>i. value_or_0 v1 j = value_or_0 v2 j) \<longleftrightarrow>
            (\<forall>j\<ge>i + 1. value_or_0 v1 j = value_or_0 v2 j)"
      proof
        assume "\<forall>j\<ge>i. value_or_0 v1 j = value_or_0 v2 j"
        then show "\<forall>j\<ge>i + 1. value_or_0 v1 j = value_or_0 v2 j" by simp
      next
        assume r: "\<forall>j\<ge>i + 1. value_or_0 v1 j = value_or_0 v2 j"
        show "\<forall>j\<ge>i. value_or_0 v1 j = value_or_0 v2 j"
        proof (intro allI impI)
          fix j assume "i \<le> j"
          then have "j = i \<or> i + 1 \<le> j" by auto
          with r True show "value_or_0 v1 j = value_or_0 v2 j" by auto
        qed
      qed
      with 1 inside True show ?thesis
        by (simp add: compareValues.simps [of i v1 v2])
    next
      case False
      then have "compareValues i v1 v2 \<noteq> 0"
        using inside by (simp add: compareValues.simps [of i v1 v2])
      with False show ?thesis by auto
    qed
  next
    case False
    then have "\<forall>j\<ge>i. value_or_0 v1 j = 0 \<and> value_or_0 v2 j = 0"
      by (simp add: value_or_0_past_end)
    with False show ?thesis
      by (simp add: compareValues.simps [of i v1 v2])
  qed
qed

lemma compareValues_pos_iff:
  "0 < compareValues i v1 v2 \<longleftrightarrow>
     (\<exists>k\<ge>i. (\<forall>j. i \<le> j \<and> j < k \<longrightarrow> value_or_0 v1 j = value_or_0 v2 j) \<and>
             value_or_0 v2 k < value_or_0 v1 k)"
proof (induction i v1 v2 rule: compareValues.induct)
  case (1 i v1 v2)
  let ?R = "\<lambda>i. \<exists>k\<ge>i. (\<forall>j. i \<le> j \<and> j < k \<longrightarrow> value_or_0 v1 j = value_or_0 v2 j) \<and>
             value_or_0 v2 k < value_or_0 v1 k"
  show ?case
  proof (cases "i < max (length v1) (length v2)")
    case inside: True
    show ?thesis
    proof (cases "value_or_0 v1 i = value_or_0 v2 i")
      case True
      have "?R i \<longleftrightarrow> ?R (i + 1)"
      proof
        assume "?R i"
        then obtain k where k: "i \<le> k"
          "\<forall>j. i \<le> j \<and> j < k \<longrightarrow> value_or_0 v1 j = value_or_0 v2 j"
          "value_or_0 v2 k < value_or_0 v1 k" by blast
        from k(3) True have "k \<noteq> i" by auto
        with k(1) have "i + 1 \<le> k" by simp
        moreover from k(2) have "\<forall>j. i + 1 \<le> j \<and> j < k \<longrightarrow> value_or_0 v1 j = value_or_0 v2 j"
          by simp
        ultimately show "?R (i + 1)" using k(3) by blast
      next
        assume "?R (i + 1)"
        then obtain k where k: "i + 1 \<le> k"
          "\<forall>j. i + 1 \<le> j \<and> j < k \<longrightarrow> value_or_0 v1 j = value_or_0 v2 j"
          "value_or_0 v2 k < value_or_0 v1 k" by blast
        have "\<forall>j. i \<le> j \<and> j < k \<longrightarrow> value_or_0 v1 j = value_or_0 v2 j"
        proof (intro allI impI)
          fix j assume j: "i \<le> j \<and> j < k"
          show "value_or_0 v1 j = value_or_0 v2 j"
          proof (cases "j = i")
            case True
            with \<open>value_or_0 v1 i = value_or_0 v2 i\<close> show ?thesis by simp
          next
            case False
            with j have "i + 1 \<le> j \<and> j < k" by simp
            with k(2) show ?thesis by blast
          qed
        qed
        moreover from k(1) have "i \<le> k" by simp
        ultimately show "?R i" using k(3) by blast
      qed
      with 1 inside True show ?thesis
        by (simp add: compareValues.simps [of i v1 v2])
    next
      case False
      have "?R i \<longleftrightarrow> value_or_0 v2 i < value_or_0 v1 i"
      proof
        assume "?R i"
        then obtain k where k: "i \<le> k"
          "\<forall>j. i \<le> j \<and> j < k \<longrightarrow> value_or_0 v1 j = value_or_0 v2 j"
          "value_or_0 v2 k < value_or_0 v1 k" by blast
        have "k = i"
        proof (rule ccontr)
          assume "k \<noteq> i"
          with k(1) have "i \<le> i \<and> i < k" by simp
          with k(2) have "value_or_0 v1 i = value_or_0 v2 i" by blast
          with False show False by simp
        qed
        with k(3) show "value_or_0 v2 i < value_or_0 v1 i" by simp
      next
        assume "value_or_0 v2 i < value_or_0 v1 i"
        then show "?R i" by (intro exI [of _ i]) simp
      qed
      with inside False show ?thesis
        by (simp add: compareValues.simps [of i v1 v2])
    qed
  next
    case False
    then have z: "\<forall>j\<ge>i. value_or_0 v1 j = 0 \<and> value_or_0 v2 j = 0"
      by (simp add: value_or_0_past_end)
    then have "\<not> ?R i" by auto
    with False show ?thesis
      by (simp add: compareValues.simps [of i v1 v2])
  qed
qed

lemma first_difference_trans:
  fixes f g h :: "nat \<Rightarrow> int"
  assumes "\<exists>k. (\<forall>j<k. f j = g j) \<and> g k < f k"
    and "(\<exists>k. (\<forall>j<k. g j = h j) \<and> h k < g k) \<or> (\<forall>j. g j = h j)"
  shows "\<exists>k. (\<forall>j<k. f j = h j) \<and> h k < f k"
proof -
  from assms(1) obtain k1 where k1: "\<forall>j<k1. f j = g j" "g k1 < f k1" by blast
  from assms(2) show ?thesis
  proof
    assume "\<forall>j. g j = h j"
    with k1 have "(\<forall>j<k1. f j = h j) \<and> h k1 < f k1" by auto
    then show ?thesis by blast
  next
    assume "\<exists>k. (\<forall>j<k. g j = h j) \<and> h k < g k"
    then obtain k2 where k2: "\<forall>j<k2. g j = h j" "h k2 < g k2" by blast
    consider "k1 < k2" | "k1 = k2" | "k2 < k1" by (rule linorder_cases)
    then show ?thesis
    proof cases
      case 1
      with k1 k2 have "(\<forall>j<k1. f j = h j) \<and> h k1 < f k1" by auto
      then show ?thesis by blast
    next
      case 2
      with k1 k2 have "(\<forall>j<k1. f j = h j) \<and> h k1 < f k1" by auto
      then show ?thesis by blast
    next
      case 3
      with k1 k2 have "(\<forall>j<k2. f j = h j) \<and> h k2 < f k2" by auto
      then show ?thesis by blast
    qed
  qed
qed

lemma compareHands_flip: "compareHands b a = - compareHands a b"
  by (simp add: compareHands_def compareValues_flip [of 0 "hand_values b" "hand_values a"])

lemma compareHands_zero_iff:
  "compareHands a b = 0 \<longleftrightarrow>
     ranking a = ranking b \<and>
     (\<forall>j. value_or_0 (hand_values a) j = value_or_0 (hand_values b) j)"
  by (simp add: compareHands_def compareValues_zero_iff)

lemma compareHands_pos_iff:
  "0 < compareHands a b \<longleftrightarrow>
     ranking b < ranking a \<or>
     ranking a = ranking b \<and>
     (\<exists>k. (\<forall>j<k. value_or_0 (hand_values a) j = value_or_0 (hand_values b) j) \<and>
          value_or_0 (hand_values b) k < value_or_0 (hand_values a) k)"
  by (auto simp add: compareHands_def compareValues_pos_iff)

lemma compareHands_nonneg_iff:
  "0 \<le> compareHands a b \<longleftrightarrow> 0 < compareHands a b \<or> compareHands a b = 0"
  by auto

lemma compareHands_pos_nonneg_trans:
  assumes "0 < compareHands a b" and "0 \<le> compareHands b c"
  shows "0 < compareHands a c"
proof -
  let ?f = "value_or_0 (hand_values a)"
  let ?g = "value_or_0 (hand_values b)"
  let ?h = "value_or_0 (hand_values c)"
  from assms(2) have bc: "ranking c < ranking b \<or> ranking b = ranking c \<and>
      ((\<exists>k. (\<forall>j<k. ?g j = ?h j) \<and> ?h k < ?g k) \<or> (\<forall>j. ?g j = ?h j))"
    unfolding compareHands_nonneg_iff compareHands_pos_iff compareHands_zero_iff
    by blast
  from assms(1) have ab: "ranking b < ranking a \<or> ranking a = ranking b \<and>
      (\<exists>k. (\<forall>j<k. ?f j = ?g j) \<and> ?g k < ?f k)"
    by (simp add: compareHands_pos_iff)
  show ?thesis
  proof (cases "ranking a = ranking b \<and> ranking b = ranking c")
    case True
    with ab bc have "\<exists>k. (\<forall>j<k. ?f j = ?g j) \<and> ?g k < ?f k"
      and "(\<exists>k. (\<forall>j<k. ?g j = ?h j) \<and> ?h k < ?g k) \<or> (\<forall>j. ?g j = ?h j)"
      by auto
    then have "\<exists>k. (\<forall>j<k. ?f j = ?h j) \<and> ?h k < ?f k"
      by (rule first_difference_trans)
    with True show ?thesis by (simp add: compareHands_pos_iff)
  next
    case False
    with ab bc have "ranking c < ranking a" by auto
    then show ?thesis by (simp add: compareHands_pos_iff)
  qed
qed

lemma compareHands_nonneg_pos_trans:
  assumes "0 \<le> compareHands a b" and "0 < compareHands b c"
  shows "0 < compareHands a c"
proof (rule ccontr)
  assume "\<not> 0 < compareHands a c"
  then have "0 \<le> compareHands c a" using compareHands_flip [of a c] by simp
  with assms(2) have "0 < compareHands b a" by (rule compareHands_pos_nonneg_trans)
  with assms(1) show False using compareHands_flip [of a b] by simp
qed

lemma compareHands_nonneg_trans:
  assumes "0 \<le> compareHands a b" and "0 \<le> compareHands b c"
  shows "0 \<le> compareHands a c"
proof (cases "0 < compareHands a b")
  case True
  from compareHands_pos_nonneg_trans [OF True assms(2)] show ?thesis by simp
next
  case False
  with assms(1) have ab: "compareHands a b = 0" by simp
  show ?thesis
  proof (cases "0 < compareHands b c")
    case True
    from compareHands_nonneg_pos_trans [OF assms(1) True] show ?thesis by simp
  next
    case False
    with assms(2) have "compareHands b c = 0" by simp
    with ab have "compareHands a c = 0" by (simp add: compareHands_zero_iff)
    then show ?thesis by simp
  qed
qed

section \<open>Properties of the hand evaluator\<close>

subsection \<open>getCombinations enumerates the subsequences of the given length\<close>

lemma filter_length_0_subseqs: "filter (\<lambda>ys. ys = []) (subseqs xs) = [] # []"
  by (induction xs) (simp_all add: Let_def filter_map o_def)

lemma filter_length_Cons:
  "0 < n \<Longrightarrow> filter (\<lambda>ys. length ys = n) (map (Cons x) xss) =
     map (Cons x) (filter (\<lambda>ys. length ys = n - 1) xss)"
  by (induction xss) auto

lemma combine_subseqs:
  fixes arr arr' :: "'a list"
  shows "length combo \<le> sz \<Longrightarrow>
     combine arr sz start combo =
       map ((@) combo) (filter (\<lambda>ys. length ys = sz - length combo) (subseqs (drop start arr)))"
  and "length combo' < sz' \<Longrightarrow>
     combine_loop arr' sz' i combo' =
       map ((@) combo') (filter (\<lambda>ys. length ys = sz' - length combo') (subseqs (drop i arr')))"
proof (induction arr sz start combo and arr' sz' i combo' rule: combine_combine_loop.induct)
  case (1 arr sz start combo)
  show ?case
  proof (cases "length combo = sz")
    case True
    then show ?thesis
      by (simp add: combine.simps [of arr sz start combo] filter_length_0_subseqs)
  next
    case False
    with 1 show ?thesis
      by (simp add: combine.simps [of arr sz start combo])
  qed
next
  case (2 arr sz i combo)
  show ?case
  proof (cases "i < length arr")
    case True
    let ?n = "sz - length combo"
    let ?rest = "subseqs (drop (i + 1) arr)"
    from 2(3) have n: "0 < ?n" by simp
    have d: "drop i arr = arr ! i # drop (i + 1) arr"
      using True by (simp add: Cons_nth_drop_Suc)
    have a: "combine arr sz (i + 1) (combo @ [arr ! i]) =
             map ((@) (combo @ [arr ! i]))
               (filter (\<lambda>ys. length ys = sz - length (combo @ [arr ! i])) ?rest)"
      using 2(1) [OF True] 2(3) by simp
    have b: "combine_loop arr sz (i + 1) combo =
             map ((@) combo) (filter (\<lambda>ys. length ys = ?n) ?rest)"
      using 2(2) [OF True] 2(3) by simp
    have "map ((@) combo) (filter (\<lambda>ys. length ys = ?n) (subseqs (drop i arr))) =
          map ((@) combo) (map (Cons (arr ! i)) (filter (\<lambda>ys. length ys = ?n - 1) ?rest)) @
          map ((@) combo) (filter (\<lambda>ys. length ys = ?n) ?rest)"
      by (simp add: d Let_def filter_length_Cons [OF n])
    also have "map ((@) combo) (map (Cons (arr ! i)) (filter (\<lambda>ys. length ys = ?n - 1) ?rest)) =
               map ((@) (combo @ [arr ! i]))
                 (filter (\<lambda>ys. length ys = sz - length (combo @ [arr ! i])) ?rest)"
      by (simp add: o_def)
    finally show ?thesis
      using True a b by (simp add: combine_loop.simps [of arr sz i combo])
  next
    case False
    with 2(3) show ?thesis
      by (simp add: combine_loop.simps [of arr sz i combo])
  qed
qed

lemma getCombinations_subseqs:
  "getCombinations arr sz = filter (\<lambda>ys. length ys = sz) (subseqs arr)"
proof -
  have "map ((@) []) xss = xss" for xss :: "'a list list"
    by (induction xss) simp_all
  then show ?thesis
    by (simp add: getCombinations_def combine_subseqs(1))
qed

lemma set_getCombinations:
  "set (getCombinations arr sz) = {ys. subseq ys arr \<and> length ys = sz}"
  by (auto simp add: getCombinations_subseqs)

lemma getCombinations_nonempty:
  assumes "sz \<le> length arr"
  shows "getCombinations arr sz \<noteq> []"
proof -
  have "subseq (take sz arr) arr"
    by (metis append_take_drop_id prefix_def prefix_imp_subseq)
  with assms have "take sz arr \<in> set (getCombinations arr sz)"
    by (simp add: set_getCombinations)
  then show ?thesis by auto
qed

subsection \<open>evaluate5Cards returns a result on every non-empty list\<close>

lemma js_insort_not_Nil: "js_insort cmp x ys \<noteq> []"
  by (cases ys) simp_all

lemma js_sort_Nil_iff: "js_sort cmp xs = [] \<longleftrightarrow> xs = []"
  by (cases xs) (simp_all add: js_sort_def js_insort_not_Nil)

lemma evaluate5Cards_returns:
  assumes "cards \<noteq> []"
  shows "\<exists>h. evaluate5Cards cards = Inr h"
proof -
  from assms obtain c cs where "js_sort (\<lambda>a b. card_value b - card_value a) cards = c # cs"
    by (metis js_sort_Nil_iff list.exhaust)
  then show ?thesis
    by (simp add: evaluate5Cards_def checkFlush_def Let_def)
qed

subsection \<open>The running maximum\<close>

lemma best_of_maximal:
  assumes "\<forall>combo\<in>set combos. combo \<noteq> []"
    and "case bestHand of None \<Rightarrow> combos \<noteq> [] | Some b \<Rightarrow> True"
  shows "\<exists>best. best_of combos bestHand = Inr (Some best) \<and>
           (bestHand = Some best \<or> (\<exists>combo\<in>set combos. evaluate5Cards combo = Inr best)) \<and>
           (\<forall>b. bestHand = Some b \<longrightarrow> 0 \<le> compareHands best b) \<and>
           (\<forall>combo\<in>set combos. \<exists>h. evaluate5Cards combo = Inr h \<and> 0 \<le> compareHands best h)"
  using assms
proof (induction combos arbitrary: bestHand)
  case Nil
  then obtain b where b: "bestHand = Some b" by (cases bestHand) auto
  have "compareHands b b = 0" by (simp add: compareHands_zero_iff)
  with b show ?case by simp
next
  case (Cons combo combos)
  from Cons.prems(1) have ne: "combo \<noteq> []" and rest: "\<forall>c\<in>set combos. c \<noteq> []" by auto
  from evaluate5Cards_returns [OF ne] obtain hand where hand: "evaluate5Cards combo = Inr hand"
    by blast
  have refl: "compareHands hand hand = 0" by (simp add: compareHands_zero_iff)
  define next_best where "next_best =
    (case bestHand of None \<Rightarrow> hand
     | Some b \<Rightarrow> if compareHands hand b > 0 then hand else b)"
  have step: "best_of (combo # combos) bestHand = best_of combos (Some next_best)"
    using hand by (simp add: next_best_def split: option.splits)
  have ge_hand: "0 \<le> compareHands next_best hand"
  proof (cases bestHand)
    case None
    with refl show ?thesis by (simp add: next_best_def)
  next
    case (Some b)
    then show ?thesis
      using refl compareHands_flip [of hand b] by (auto simp add: next_best_def)
  qed
  have ge_old: "\<forall>b. bestHand = Some b \<longrightarrow> 0 \<le> compareHands next_best b"
  proof (intro allI impI)
    fix b assume b: "bestHand = Some b"
    have "compareHands b b = 0" by (simp add: compareHands_zero_iff)
    with b show "0 \<le> compareHands next_best b" by (simp add: next_best_def)
  qed
  have src: "bestHand = Some next_best \<or> next_best = hand"
    by (cases bestHand) (auto simp add: next_best_def)
  from Cons.IH [of "Some next_best"] rest
  obtain best where best: "best_of combos (Some next_best) = Inr (Some best)"
    "Some next_best = Some best \<or> (\<exists>c\<in>set combos. evaluate5Cards c = Inr best)"
    "0 \<le> compareHands best next_best"
    "\<forall>c\<in>set combos. \<exists>h. evaluate5Cards c = Inr h \<and> 0 \<le> compareHands best h"
    by auto
  have "0 \<le> compareHands best hand"
    using best(3) ge_hand by (rule compareHands_nonneg_trans)
  moreover have "\<forall>b. bestHand = Some b \<longrightarrow> 0 \<le> compareHands best b"
    using best(3) ge_old compareHands_nonneg_trans by blast
  moreover have "bestHand = Some best \<or>
      (\<exists>c\<in>set (combo # combos). evaluate5Cards c = Inr best)"
    using best(2) src hand by auto
  ultimately show ?case
    using step best(1) best(4) hand by auto
qed

section \<open>Properties of distributePots\<close>

lemma getTotalPot_sum_list: "getTotalPot potlist = sum_list (map pot_amount potlist)"
proof -
  have "foldl (\<lambda>sum pot. sum + pot_amount pot) a potlist = a + sum_list (map pot_amount potlist)" for a
    by (induction potlist arbitrary: a) simp_all
  then show ?thesis by (simp add: getTotalPot_def)
qed

subsection \<open>The win operations of one pot\<close>

lemma win_operations_later_amounts:
  "0 < i \<Longrightarrow> map op_amount (win_operations i ws share remainder he) = replicate (length ws) share"
  by (induction ws arbitrary: i) simp_all

lemma win_operations_amounts:
  "map op_amount (win_operations 0 (w # ws) share remainder he) =
     (share + remainder) # replicate (length ws) share"
  by (simp add: win_operations_later_amounts)




lemma split_exact:
  assumes "0 \<le> a" and "0 < n"
  shows "js_floor_div a n * n + js_rem a n = a"
    and "0 \<le> js_floor_div a n" and "0 \<le> js_rem a n"
    and "js_floor_div a n = a div n" and "js_rem a n = a mod n"
proof -
  from assms show r: "js_rem a n = a mod n"
    by (cases "a = 0") (simp_all add: js_rem_def)
  show d: "js_floor_div a n = a div n" by (simp add: js_floor_div_def)
  from d r show "js_floor_div a n * n + js_rem a n = a" by simp
  from assms d show "0 \<le> js_floor_div a n" by (simp add: pos_imp_zdiv_nonneg_iff)
  from assms r show "0 \<le> js_rem a n" by simp
qed

lemma win_operations_sum:
  assumes "ws \<noteq> []"
  shows "sum_list (map op_amount (win_operations 0 ws share remainder he)) =
           share * int (length ws) + remainder"
proof -
  from assms obtain w rest where ws: "ws = w # rest" by (cases ws) auto
  show ?thesis
    by (simp only: ws win_operations_amounts) (simp add: sum_list_replicate algebra_simps)
qed

subsection \<open>The winners loop\<close>

lemma find_winners_nonempty:
  assumes "find_winners xs he best ws = Inr ws'"
    and "ws \<noteq> [] \<or> best = None \<and> xs \<noteq> []"
  shows "ws' \<noteq> []"
  using assms
proof (induction xs arbitrary: best ws)
  case Nil
  then show ?case by auto
next
  case (Cons x xs)
  show ?case
  proof (cases best)
    case None
    with Cons.prems(1) have "find_winners xs he (he (player_id x)) [x] = Inr ws'" by simp
    then show ?thesis by (rule Cons.IH) simp
  next
    case (Some b)
    with Cons.prems(2) have ws: "ws \<noteq> []" by simp
    from Cons.prems(1) Some obtain h where h: "he (player_id x) = Some h"
      by (cases "he (player_id x)") auto
    consider "compareHands h b > 0" | "compareHands h b = 0" | "compareHands h b < 0"
      by (rule linorder_cases [of "compareHands h b" 0]) auto
    then show ?thesis
    proof cases
      case 1
      with Cons.prems(1) Some h have "find_winners xs he (Some h) [x] = Inr ws'" by simp
      then show ?thesis by (rule Cons.IH) simp
    next
      case 2
      with Cons.prems(1) Some h have "find_winners xs he (Some b) (ws @ [x]) = Inr ws'" by simp
      then show ?thesis by (rule Cons.IH) simp
    next
      case 3
      with Cons.prems(1) Some h have "find_winners xs he (Some b) ws = Inr ws'" by simp
      then show ?thesis using ws by (intro Cons.IH [of "Some b" ws]) simp_all
    qed
  qed
qed

lemma find_winners_returns:
  assumes "\<forall>p\<in>set xs. he (player_id p) \<noteq> None"
  shows "\<exists>ws'. find_winners xs he best ws = Inr ws'"
  using assms
proof (induction xs arbitrary: best ws)
  case Nil
  then show ?case by simp
next
  case (Cons x xs)
  then obtain h where h: "he (player_id x) = Some h" by auto
  from Cons have IH: "\<And>best ws. \<exists>ws'. find_winners xs he best ws = Inr ws'" by simp
  show ?case
    using h IH by (cases best) (simp_all add: Let_def)
qed

subsection \<open>One pot, and the loop over the potlist\<close>

lemma distributePot_none:
  assumes "filter (\<lambda>p. player_id p \<in> set (eligiblePlayers pot) \<and> \<not> folded p) plist = []"
  shows "distributePot pot plist he = Inr []"
  unfolding distributePot_def Let_def assms by simp

lemma distributePot_single:
  assumes "filter (\<lambda>p. player_id p \<in> set (eligiblePlayers pot) \<and> \<not> folded p) plist = [p]"
  shows "distributePot pot plist he =
           Inr [\<lparr>playerId = player_id p, op_amount = pot_amount pot,
                 op_type = Return, op_hand = None\<rparr>]"
  unfolding distributePot_def Let_def assms by simp

lemma distributePot_contested:
  assumes "eligible = filter (\<lambda>p. player_id p \<in> set (eligiblePlayers pot) \<and> \<not> folded p) plist"
    and "2 \<le> length eligible"
  shows "distributePot pot plist he =
           (case find_winners eligible he None [] of
              Inl e \<Rightarrow> Inl e
            | Inr winners \<Rightarrow>
                Inr (win_operations 0 winners
                       (js_floor_div (pot_amount pot) (int (length winners)))
                       (js_rem (pot_amount pot) (int (length winners))) he))"
proof -
  from assms(2) have a: "(length eligible = 0) = False" and b: "(length eligible = 1) = False"
    by auto
  show ?thesis
    unfolding distributePot_def Let_def assms(1) [symmetric] a b if_False ..
qed

lemma distributePot_conserves:
  assumes ops: "distributePot pot plist he = Inr ops"
    and nonneg: "0 \<le> pot_amount pot"
    and elig: "\<exists>p\<in>set plist. player_id p \<in> set (eligiblePlayers pot) \<and> \<not> folded p"
  shows "sum_list (map op_amount ops) = pot_amount pot \<and> (\<forall>op\<in>set ops. 0 \<le> op_amount op)"
proof -
  define eligible where
    "eligible = filter (\<lambda>p. player_id p \<in> set (eligiblePlayers pot) \<and> \<not> folded p) plist"
  from elig have ne: "eligible \<noteq> []"
    by (auto simp add: eligible_def filter_empty_conv)
  show ?thesis
  proof (cases "length eligible = 1")
    case True
    then obtain p where "eligible = [p]"
      by (cases eligible) auto
    then have "filter (\<lambda>p. player_id p \<in> set (eligiblePlayers pot) \<and> \<not> folded p) plist = [p]"
      by (simp add: eligible_def)
    from distributePot_single [OF this, of he] ops nonneg show ?thesis by auto
  next
    case False
    with ne have "2 \<le> length eligible"
      by (cases eligible) (auto simp add: Suc_le_eq)
    from distributePot_contested [OF eligible_def this, of he] ops
    obtain winners where w: "find_winners eligible he None [] = Inr winners"
      and o: "ops = win_operations 0 winners
                (js_floor_div (pot_amount pot) (int (length winners)))
                (js_rem (pot_amount pot) (int (length winners))) he"
      by (auto split: sum.splits)
    have wne: "winners \<noteq> []" using find_winners_nonempty [OF w] ne by simp
    then have n: "0 < int (length winners)" by simp
    note ex = split_exact [OF nonneg n]
    from wne obtain w0 rest where wr: "winners = w0 # rest" by (cases winners) auto
    have "sum_list (map op_amount ops) = pot_amount pot"
      using win_operations_sum [OF wne] ex(1) by (simp add: o)
    moreover have "\<forall>op\<in>set ops. 0 \<le> op_amount op"
    proof -
      have "set (map op_amount ops) \<subseteq>
              {js_floor_div (pot_amount pot) (int (length winners)) +
               js_rem (pot_amount pot) (int (length winners)),
               js_floor_div (pot_amount pot) (int (length winners))}"
        unfolding o wr win_operations_amounts by auto
      with ex(2,3) show ?thesis by fastforce
    qed
    ultimately show ?thesis by simp
  qed
qed

lemma distributePot_returns:
  assumes "\<forall>p\<in>set plist. \<not> folded p \<longrightarrow> he (player_id p) \<noteq> None"
  shows "\<exists>ops. distributePot pot plist he = Inr ops"
proof -
  define eligible where
    "eligible = filter (\<lambda>p. player_id p \<in> set (eligiblePlayers pot) \<and> \<not> folded p) plist"
  from assms have "\<forall>p\<in>set eligible. he (player_id p) \<noteq> None"
    by (simp add: eligible_def)
  from find_winners_returns [OF this] obtain ws where "find_winners eligible he None [] = Inr ws"
    by blast
  then show ?thesis
    unfolding distributePot_def Let_def eligible_def [symmetric] by simp
qed

lemma distributePots_loop_acc:
  "distributePots_loop potlist plist he operations =
     (case distributePots_loop potlist plist he [] of
        Inl e \<Rightarrow> Inl e
      | Inr ops \<Rightarrow> Inr (operations @ ops))"
proof (induction potlist arbitrary: operations)
  case Nil
  show ?case by simp
next
  case (Cons pot potlist)
  show ?case
  proof (cases "distributePot pot plist he")
    case (Inl e)
    then show ?thesis by simp
  next
    case (Inr ops)
    then show ?thesis
      using Cons.IH [of "operations @ ops"] Cons.IH [of ops]
      by (simp split: sum.splits)
  qed
qed

lemma distributePots_Cons:
  "distributePots (pot # potlist) plist he =
     (case distributePot pot plist he of
        Inl e \<Rightarrow> Inl e
      | Inr ops \<Rightarrow>
          (case distributePots potlist plist he of
             Inl e \<Rightarrow> Inl e
           | Inr later \<Rightarrow> Inr (ops @ later)))"
proof (cases "distributePot pot plist he")
  case (Inl e)
  then show ?thesis by (simp add: distributePots_def)
next
  case (Inr ops)
  then show ?thesis
    by (simp add: distributePots_def distributePots_loop_acc [of potlist plist he ops])
qed

lemma distributePots_Nil: "distributePots [] plist he = Inr []"
  by (simp add: distributePots_def)

lemma distributePots_append:
  "distributePots (before @ after) plist he =
     (case distributePots before plist he of
        Inl e \<Rightarrow> Inl e
      | Inr ops \<Rightarrow>
          (case distributePots after plist he of
             Inl e \<Rightarrow> Inl e
           | Inr later \<Rightarrow> Inr (ops @ later)))"
proof (induction before)
  case Nil
  show ?case by (simp add: distributePots_Nil split: sum.splits)
next
  case (Cons pot before)
  then show ?case
    by (simp add: distributePots_Cons split: sum.splits)
qed

section \<open>Properties of createPots\<close>

subsection \<open>The bet levels are the distinct contributions in ascending order\<close>

lemma js_insort_ascending: "js_insort (\<lambda>a b. a - b) (x :: int) ys = insort x ys"
  by (induction ys) simp_all

lemma js_sort_ascending: "js_sort (\<lambda>a b. a - b) (xs :: int list) = sort xs"
proof -
  have "js_insort (\<lambda>a b. a - b) = (insort :: int \<Rightarrow> int list \<Rightarrow> int list)"
    by (intro ext) (rule js_insort_ascending)
  then show ?thesis by (simp add: js_sort_def sort_key_def)
qed

lemma betLevels_ascending:
  "sorted_wrt (<) (js_sort (\<lambda>a b. a - b) (remdups (vs :: int list)))"
  "set (js_sort (\<lambda>a b. a - b) (remdups vs)) = set vs"
  by (simp_all add: js_sort_ascending strict_sorted_iff)

subsection \<open>What one player puts into the pots of a ladder\<close>

lemma ladder_share_below: "\<forall>l\<in>set ls. b < l \<Longrightarrow> ladder_share ls prev b = 0"
  by (induction ls arbitrary: prev) simp_all

lemma ladder_share_level:
  assumes "sorted_wrt (<) ls" and "b \<in> set ls"
  shows "ladder_share ls prev b = b - prev"
  using assms
proof (induction ls arbitrary: prev)
  case Nil
  then show ?case by simp
next
  case (Cons l ls)
  show ?case
  proof (cases "b = l")
    case True
    from Cons.prems(1) have "\<forall>x\<in>set ls. l < x" by simp
    with True show ?thesis by (simp add: ladder_share_below)
  next
    case False
    with Cons.prems have "b \<in> set ls" "l < b" "sorted_wrt (<) ls" by auto
    with Cons.IH [of l] show ?thesis by simp
  qed
qed

lemma add_contributions_amount:
  "pot_amount (add_contributions ps bets level prev pot) =
     pot_amount pot +
     (\<Sum>p\<leftarrow>ps. if lookup_or_0 bets (player_id p) \<ge> level
              then min level (lookup_or_0 bets (player_id p)) - prev else 0)"
  by (induction ps arbitrary: pot) (simp_all add: Let_def)

lemma add_contributions_nonneg:
  assumes "prev < level" and "0 \<le> pot_amount pot"
  shows "0 \<le> pot_amount (add_contributions ps bets level prev pot)"
proof -
  have "0 \<le> (\<Sum>p\<leftarrow>ps. if lookup_or_0 bets (player_id p) \<ge> level
              then min level (lookup_or_0 bets (player_id p)) - prev else 0)"
    using assms(1) by (intro sum_list_nonneg) auto
  with assms(2) show ?thesis by (simp add: add_contributions_amount)
qed

lemma createPots_levels_sum:
  assumes "sorted_wrt (<) ls" and "\<forall>l\<in>set ls. prev < l"
  shows "sum_list (map pot_amount (createPots_levels ls ps bets prev acc)) =
           sum_list (map pot_amount acc) +
           (\<Sum>p\<leftarrow>ps. ladder_share ls prev (lookup_or_0 bets (player_id p)))"
  using assms
proof (induction ls arbitrary: prev acc)
  case Nil
  then show ?case by simp
next
  case (Cons l ls)
  define pot where
    "pot = add_contributions ps bets l prev \<lparr>pot_amount = 0, eligiblePlayers = []\<rparr>"
  define kept where "kept = (if pot_amount pot > 0 then acc @ [pot] else acc)"
  from Cons.prems have rest: "sorted_wrt (<) ls" "\<forall>x\<in>set ls. l < x" and step: "prev < l"
    by auto
  have amount: "pot_amount pot =
      (\<Sum>p\<leftarrow>ps. if lookup_or_0 bets (player_id p) \<ge> l
               then min l (lookup_or_0 bets (player_id p)) - prev else 0)"
    by (simp add: pot_def add_contributions_amount)
  have "0 \<le> pot_amount pot"
    unfolding pot_def using step by (intro add_contributions_nonneg) simp_all
  then have kept_sum: "sum_list (map pot_amount kept) = sum_list (map pot_amount acc) + pot_amount pot"
    by (auto simp add: kept_def)
  have share: "(\<Sum>p\<leftarrow>ps. ladder_share (l # ls) prev (lookup_or_0 bets (player_id p))) =
      pot_amount pot + (\<Sum>p\<leftarrow>ps. ladder_share ls l (lookup_or_0 bets (player_id p)))"
    by (simp add: amount sum_list_addf)
  have "sum_list (map pot_amount (createPots_levels (l # ls) ps bets prev acc)) =
        sum_list (map pot_amount (createPots_levels ls ps bets l kept))"
    by (simp add: Let_def pot_def kept_def)
  also have "\<dots> = sum_list (map pot_amount kept) +
                  (\<Sum>p\<leftarrow>ps. ladder_share ls l (lookup_or_0 bets (player_id p)))"
    by (rule Cons.IH [OF rest])
  also have "\<dots> = sum_list (map pot_amount acc) +
                  (\<Sum>p\<leftarrow>ps. ladder_share (l # ls) prev (lookup_or_0 bets (player_id p)))"
    by (simp only: kept_sum share add.assoc)
  finally show ?case .
qed

subsection \<open>The contributions of the players are the values of the map\<close>

lemma sum_list_values:
  assumes "distinct (map fst al)"
  shows "sum_list (map snd al) = (\<Sum>k\<in>fst ` set al. the (map_of al k))"
  using assms
proof (induction al)
  case Nil
  then show ?case by simp
next
  case (Cons kv al)
  obtain k v where kv: "kv = (k, v)" by (cases kv)
  from Cons.prems kv have fresh: "k \<notin> fst ` set al" and rest: "distinct (map fst al)"
    by auto
  have "(\<Sum>x\<in>fst ` set al. the (map_of ((k, v) # al) x)) =
        (\<Sum>x\<in>fst ` set al. the (map_of al x))"
    using fresh by (intro sum.cong) auto
  with fresh Cons.IH [OF rest] show ?case
    by (simp add: kv)
qed

lemma sum_of_player_bets:
  assumes "distinct (map player_id ps)"
    and "fst ` set bets \<subseteq> player_id ` set ps"
  shows "(\<Sum>p\<leftarrow>ps. lookup_or_0 bets (player_id p)) = sum_list (Object_values bets)"
proof -
  let ?keys = "fst ` set bets"
  let ?ids = "player_id ` set ps"
  have look: "lookup_or_0 bets k = (if k \<in> ?keys then the (map_of bets k) else 0)" for k
  proof (cases "map_of bets k")
    case None
    then have "k \<notin> ?keys" by (simp add: map_of_eq_None_iff)
    with None show ?thesis by (simp add: lookup_or_0_def)
  next
    case (Some v)
    then have "k \<in> ?keys" by (metis map_of_eq_None_iff option.distinct(1))
    with Some show ?thesis by (simp add: lookup_or_0_def)
  qed
  have inter: "?ids \<inter> ?keys = ?keys"
    using assms(2) by blast
  have "(\<Sum>p\<leftarrow>ps. lookup_or_0 bets (player_id p)) =
        sum_list (map (lookup_or_0 bets) (map player_id ps))"
    by (simp add: o_def)
  also have "\<dots> = (\<Sum>k\<in>set (map player_id ps). lookup_or_0 bets k)"
    using assms(1) by (rule sum_list_distinct_conv_sum_set)
  also have "\<dots> = (\<Sum>k\<in>?ids. lookup_or_0 bets k)"
    by simp
  also have "\<dots> = (\<Sum>k\<in>?ids. if k \<in> ?keys then the (map_of bets k) else 0)"
    by (simp add: look)
  also have "\<dots> = (\<Sum>k\<in>?ids \<inter> ?keys. the (map_of bets k))"
    by (rule sum.inter_restrict [symmetric]) simp
  also have "\<dots> = (\<Sum>k\<in>?keys. the (map_of bets k))"
    by (simp only: inter)
  also have "\<dots> = (\<Sum>k\<in>fst ` set (AList.clearjunk bets). the (map_of (AList.clearjunk bets) k))"
    by (simp add: dom_clearjunk map_of_clearjunk)
  also have "\<dots> = sum_list (map snd (AList.clearjunk bets))"
    by (rule sum_list_values [symmetric]) simp
  finally show ?thesis by (simp add: Object_values_def)
qed

subsection \<open>createPots partitions the contributions when none of them is zero\<close>

lemma createPots_partitions:
  assumes ids: "distinct (map player_id ps)"
    and keys: "fst ` set bets \<subseteq> player_id ` set ps"
    and positive: "\<forall>v\<in>set (Object_values bets). 0 < v"
  shows "getTotalPot (createPots ps bets) = sum_list (Object_values bets)"
proof -
  let ?levels = "js_sort (\<lambda>a b. a - b) (remdups (Object_values bets))"
  have asc: "sorted_wrt (<) ?levels" and lv: "set ?levels = set (Object_values bets)"
    by (rule betLevels_ascending)+
  from lv positive have above: "\<forall>l\<in>set ?levels. 0 < l" by simp
  have share: "ladder_share ?levels 0 (lookup_or_0 bets (player_id p)) =
               lookup_or_0 bets (player_id p)" for p
  proof (cases "map_of bets (player_id p)")
    case None
    then have "lookup_or_0 bets (player_id p) = 0" by (simp add: lookup_or_0_def)
    with above show ?thesis by (simp add: ladder_share_below)
  next
    case (Some v)
    then have b: "lookup_or_0 bets (player_id p) = v" by (simp add: lookup_or_0_def)
    from Some have "map_of (AList.clearjunk bets) (player_id p) = Some v"
      by (simp add: map_of_clearjunk)
    then have "v \<in> set (Object_values bets)"
      unfolding Object_values_def by (metis map_of_SomeD set_zip_rightD zip_map_fst_snd)
    with lv have "v \<in> set ?levels" by simp
    from ladder_share_level [OF asc this, of 0] b show ?thesis by simp
  qed
  show ?thesis
  proof (cases "?levels = []")
    case True
    with lv have "Object_values bets = []" by simp
    with True show ?thesis by (simp add: createPots_def getTotalPot_def Let_def)
  next
    case False
    then obtain l ls where cons: "?levels = l # ls" by (cases ?levels) auto
    with above have "l \<noteq> 0" by auto
    with cons have run: "createPots ps bets = createPots_levels ?levels ps bets 0 []"
      by (simp add: createPots_def Let_def js_index_def)
    have "getTotalPot (createPots ps bets) =
          (\<Sum>p\<leftarrow>ps. ladder_share ?levels 0 (lookup_or_0 bets (player_id p)))"
      unfolding run getTotalPot_sum_list
      using createPots_levels_sum [OF asc above, of ps bets "[]"] by simp
    also have "\<dots> = (\<Sum>p\<leftarrow>ps. lookup_or_0 bets (player_id p))"
      by (simp add: share)
    also have "\<dots> = sum_list (Object_values bets)"
      using ids keys by (rule sum_of_player_bets)
    finally show ?thesis .
  qed
qed

subsection \<open>The winners are the eligible plist with a maximal hand\<close>




section \<open>Properties of the betting round\<close>




lemma bet_whole_stack:
  "bet p (stack p) = (p\<lparr>stack := 0, player_currentBet := player_currentBet p + stack p,
                         totalBet := totalBet p + stack p, allIn := True\<rparr>, stack p)"
  by (simp add: bet_def Let_def)

lemma players_validateGameState:
  "players (validateGameState s) =
     map (\<lambda>player. if stack player = 0 \<and> \<not> allIn player \<and> \<not> folded player
                    then player\<lparr>allIn := True\<rparr> else player) (players s)"
  by (simp add: validateGameState_def Let_def)

lemma validateGameState_fields:
  "currentBets (validateGameState s) = currentBets s"
  "playersActedThisRound (validateGameState s) = playersActedThisRound s"
  "currentBet (validateGameState s) = currentBet s"
  "pots (validateGameState s) = pots s"
  "waitingForHumanAction (validateGameState s) = waitingForHumanAction s"
  by (simp_all add: validateGameState_def Let_def)

lemma moveToNextPlayer_fields:
  "players (moveToNextPlayer s) = players s"
  "currentBets (moveToNextPlayer s) = currentBets s"
  "playersActedThisRound (moveToNextPlayer s) = playersActedThisRound s"
  "currentBet (moveToNextPlayer s) = currentBet s"
  "pots (moveToNextPlayer s) = pots s"
  by (simp_all add: moveToNextPlayer_def)


lemma processPlayerAction_unfold:
  assumes "js_index (players s) i = Some actor"
  shows "processPlayerAction s i a amount =
           (case apply_action
                   (s\<lparr>playersActedThisRound :=
                        AList.update (player_id actor) True (playersActedThisRound s)\<rparr>)
                   i actor (map_of (currentBets s) (player_id actor)) a amount of
              Inl e \<Rightarrow> Inl e
            | Inr s2 \<Rightarrow> Inr (moveToNextPlayer (validateGameState s2)))"
  using assms by (simp add: processPlayerAction_def Let_def)

lemma js_index_Some: "js_index xs i = Some x \<longleftrightarrow> i < length xs \<and> xs ! i = x"
  by (auto simp add: js_index_def)




section \<open>The chips in play during a betting round\<close>

lemma foldl_stacks:
  "foldl (\<lambda>total player. total + stack player) a ps = a + sum_list (map stack ps)"
  by (induction ps arbitrary: a) simp_all

lemma foldl_values: "foldl (\<lambda>a b. a + b) a (vs :: int list) = a + sum_list vs"
  by (induction vs arbitrary: a) simp_all

lemma currentTotal_sums:
  "currentTotal s =
     sum_list (map stack (players s)) + sum_list (Object_values (currentBets s))
     + getTotalPot (pots s)"
  by (simp add: currentTotal_def foldl_stacks foldl_values)

lemma stacks_after_update:
  "i < length ps \<Longrightarrow>
     sum_list (map stack (ps[i := p'])) = sum_list (map stack ps) - stack (ps ! i) + stack p'"
proof (induction ps arbitrary: i)
  case Nil
  then show ?case by simp
next
  case (Cons p ps)
  then show ?case by (cases i) simp_all
qed

lemma values_after_update:
  "map_of al k = Some old \<Longrightarrow>
     sum_list (map snd (AList.update k v al)) = sum_list (map snd al) - old + (v :: int)"
  by (induction al) (auto split: if_splits)

lemma Object_values_after_update:
  assumes "map_of (bets :: int js_object) k = Some old"
  shows "sum_list (Object_values (AList.update k v bets)) =
           sum_list (Object_values bets) - old + v"
proof -
  from assms have "map_of (AList.clearjunk bets) k = Some old"
    by (simp add: map_of_clearjunk)
  from values_after_update [OF this, of v] show ?thesis
    by (simp add: Object_values_def clearjunk_update)
qed

lemma currentTotal_validateGameState: "currentTotal (validateGameState s) = currentTotal s"
proof -
  have "map stack (players (validateGameState s)) = map stack (players s)"
    by (simp add: players_validateGameState o_def if_distrib cong: if_cong)
  then show ?thesis
    by (simp add: currentTotal_sums validateGameState_fields)
qed

lemma currentTotal_moveToNextPlayer: "currentTotal (moveToNextPlayer s) = currentTotal s"
  by (simp add: currentTotal_sums moveToNextPlayer_fields)

lemma stack_after_bet: "stack (fst (bet p amount)) = stack p - snd (bet p amount)"
  by (simp add: bet_def Let_def)

text \<open>
  Every action that processPlayerAction processes moves chips from a stack to the
  player's contribution and leaves the chips in play as they were.
\<close>

lemma processPlayerAction_keeps_chips:
  assumes "processPlayerAction s i a amount = Inr s'"
  shows "currentTotal s' = currentTotal s"
proof (cases "js_index (players s) i")
  case None
  with assms show ?thesis by (simp add: processPlayerAction_def)
next
  case (Some actor)
  then have i: "i < length (players s)" and actor: "players s ! i = actor"
    by (simp_all add: js_index_Some)
  let ?s1 = "s\<lparr>playersActedThisRound :=
                 AList.update (player_id actor) True (playersActedThisRound s)\<rparr>"
  from assms obtain s2 where
    s2: "apply_action ?s1 i actor (map_of (currentBets s) (player_id actor)) a amount = Inr s2"
    and s': "s' = moveToNextPlayer (validateGameState s2)"
    unfolding processPlayerAction_unfold [OF Some] by (auto split: sum.splits)
  have wager: "sum_list (map stack ((players s)[i := fst (bet actor x)]))
           + sum_list (Object_values
               (AList.update (player_id actor) (paid + snd (bet actor x)) (currentBets s)))
         = sum_list (map stack (players s)) + sum_list (Object_values (currentBets s))"
    if "map_of (currentBets s) (player_id actor) = Some paid" for paid x
    using i actor that
    by (simp add: stacks_after_update Object_values_after_update stack_after_bet)
  have "currentTotal s2 = currentTotal s"
  proof (cases a)
    case FOLD
    with s2 have "s2 = ?s1\<lparr>players := (players s)[i := actor\<lparr>folded := True\<rparr>]\<rparr>"
      by simp
    with i actor show ?thesis
      by (simp add: currentTotal_sums stacks_after_update)
  next
    case CHECK
    with s2 show ?thesis by (auto simp add: currentTotal_sums)
  next
    case CALL
    with s2 obtain paid where paid: "map_of (currentBets s) (player_id actor) = Some paid"
      by (cases "map_of (currentBets s) (player_id actor)") auto
    from s2 CALL show ?thesis
      unfolding paid
      by (auto simp add: currentTotal_sums Let_def case_prod_beta wager [OF paid])
  next
    case BET
    with s2 obtain paid where paid: "map_of (currentBets s) (player_id actor) = Some paid"
      by (cases "map_of (currentBets s) (player_id actor)") auto
    from s2 BET show ?thesis
      unfolding paid
      by (auto simp add: currentTotal_sums Let_def case_prod_beta wager [OF paid])
  next
    case RAISE
    with s2 obtain paid where paid: "map_of (currentBets s) (player_id actor) = Some paid"
      by (cases "map_of (currentBets s) (player_id actor)") auto
    from s2 RAISE show ?thesis
      unfolding paid
      by (auto simp add: currentTotal_sums Let_def case_prod_beta wager [OF paid])
  next
    case ALL_IN
    with s2 obtain paid where paid: "map_of (currentBets s) (player_id actor) = Some paid"
      by (cases "map_of (currentBets s) (player_id actor)") auto
    from s2 ALL_IN show ?thesis
      unfolding paid
      by (auto simp add: currentTotal_sums Let_def case_prod_beta wager [OF paid]
          split: if_splits)
  qed
  then show ?thesis
    by (simp add: s' currentTotal_moveToNextPlayer currentTotal_validateGameState)
qed

section \<open>C1: the chips in play after a betting round and after the showdown\<close>

text \<open>
  Claim C1 says that the chips in play (stacks, current-round contributions and pot
  amounts) equal the starting total of 6000 at the start of every hand and after every
  settlement, in particular after completeBettingRound and after showdown. The code
  does not keep this. Each entry below lists the state, the stacks, the current bets,
  the pot amounts, the total that validateGameState computes and the events emitted.

  In the first hand of a new table the total is 6000 once the blinds are posted. When
  all six players call before the flop, completeBettingRound leaves one pot of 60 and
  the total is still 6000. When all six then check on the flop, completeBettingRound
  calls createPots on six contributions of 0; createPots empties the pot list and
  returns, the 60 chips of the earlier round are in no stack, bet or pot, and the total
  is 5940. Checked down to the showdown, the hand pays nobody: every stack stays at
  990, and validateGameState has reported the mismatch after each of the twelve later
  actions and after the showdown.

  When instead seat 4 folds before the flop without having put in a chip, the
  contributions hold a 0, createPots returns at once, and the 50 chips of that round
  are gone as soon as the round completes.

  The actions themselves keep the chips in play (lemma
  \<open>processPlayerAction_keeps_chips\<close>); they are lost when a round completes.
\<close>

theorem first_hand_loses_the_pot:
  "chips first_hand =
     Some (PRE_FLOP, [1000, 1000, 995, 990, 1000, 1000], [0, 0, 5, 10, 0, 0], [], 6000, [])
   \<and> chips first_hand_flop =
     Some (FLOP, [990, 990, 990, 990, 990, 990], [0, 0, 0, 0, 0, 0], [60], 6000, [])
   \<and> chips first_hand_turn =
     Some (TURN, [990, 990, 990, 990, 990, 990], [0, 0, 0, 0, 0, 0], [], 5940, [])
   \<and> chips first_hand_showdown =
     Some (SHOWDOWN, [990, 990, 990, 990, 990, 990], [0, 0, 0, 0, 0, 0], [], 5940,
           replicate 13 (IntegrityError 6000 5940))
   \<and> chips first_hand_fold_flop =
     Some (FLOP, [990, 990, 990, 990, 1000, 990], [0, 0, 0, 0, 0, 0], [], 5950, [])"
proof (intro conjI)
  show "chips first_hand =
     Some (PRE_FLOP, [1000, 1000, 995, 990, 1000, 1000], [0, 0, 5, 10, 0, 0], [], 6000, [])"
    by code_simp
  show "chips first_hand_flop =
     Some (FLOP, [990, 990, 990, 990, 990, 990], [0, 0, 0, 0, 0, 0], [60], 6000, [])"
    by code_simp
  show "chips first_hand_turn =
     Some (TURN, [990, 990, 990, 990, 990, 990], [0, 0, 0, 0, 0, 0], [], 5940, [])"
    by code_simp
  show "chips first_hand_showdown =
     Some (SHOWDOWN, [990, 990, 990, 990, 990, 990], [0, 0, 0, 0, 0, 0], [], 5940,
           replicate 13 (IntegrityError 6000 5940))"
    by code_simp
  show "chips first_hand_fold_flop =
     Some (FLOP, [990, 990, 990, 990, 1000, 990], [0, 0, 0, 0, 0, 0], [], 5950, [])"
    by code_simp
qed

section \<open>C2: createPots and the sum of the contributions\<close>

text \<open>
  Claim C2 says that the pots of createPots always sum to the contributions being
  partitioned, the ladder being built from the distinct non-zero levels. The code does
  not skip a zero level: it returns at once when the lowest level is 0, leaving no pot
  at all. Here player 0 folded without contributing, players 1 and 2 contributed 50
  each: the contributions sum to 100 and the pots to 0. (When no contribution in the
  map is zero the pots do sum to the contributions: lemma \<open>createPots_partitions\<close>.)
\<close>

theorem createPots_zero_contribution_drops_all:
  "createPots [(Player 0 ''You'' 1000 True)\<lparr>folded := True\<rparr>, Player 1 ''Sarah'' 950 False,
               Player 2 ''Mike'' 950 False] [(0, 0), (1, 50), (2, 50)] = []
   \<and> getTotalPot
       (createPots [(Player 0 ''You'' 1000 True)\<lparr>folded := True\<rparr>, Player 1 ''Sarah'' 950 False,
                    Player 2 ''Mike'' 950 False] [(0, 0), (1, 50), (2, 50)]) = 0
   \<and> sum_list (Object_values [(0, 0), (1, 50), (2, 50 :: int)]) = 100"
  by code_simp

section \<open>C3: distributePots pays out what the potlist hold\<close>

text \<open>
  Claim C3, as stated, says that for every pot list and every players and hand-results
  input the amounts of the emitted operations sum to the pot amounts. A pot whose
  eligible players are all folded or absent is skipped by the guard
  \<open>if (eligiblePlayers.length === 0) continue\<close>, so its chips appear in no operation.
  Below, createPots itself builds such a pot: player 0 contributed 100 and folded,
  player 1 contributed 50. The pots hold 150 and the only operation returns 100.
\<close>

theorem distributePots_skips_unclaimed_pot:
  "distributePots
     (createPots [(Player 0 ''You'' 900 True)\<lparr>folded := True\<rparr>, Player 1 ''Sarah'' 0 False]
        [(0, 100), (1, 50)])
     [(Player 0 ''You'' 900 True)\<lparr>folded := True\<rparr>, Player 1 ''Sarah'' 0 False]
     Map.empty
   = Inr [\<lparr>playerId = 1, op_amount = 100, op_type = Return, op_hand = None\<rparr>]
   \<and> sum_list (map op_amount
        [\<lparr>playerId = 1, op_amount = 100, op_type = Return, op_hand = None\<rparr>]) = 100
   \<and> getTotalPot
        (createPots [(Player 0 ''You'' 900 True)\<lparr>folded := True\<rparr>, Player 1 ''Sarah'' 0 False]
           [(0, 100), (1, 50)]) = 150"
  by code_simp

text \<open>
  Claim C3, amended. For every pot list whose amounts are non-negative and in which
  every pot has at least one eligible player who is in \<open>players\<close> and has not folded,
  whenever distributePots returns its operations their amounts sum to the sum of the
  pot amounts and every amount is non-negative. It does return whenever every player
  who has not folded has a hand result.
\<close>

theorem distributePots_conserves:
  assumes "\<forall>pot\<in>set potlist. 0 \<le> pot_amount pot"
    and "\<forall>pot\<in>set potlist. \<exists>p\<in>set plist.
           player_id p \<in> set (eligiblePlayers pot) \<and> \<not> folded p"
  shows "(\<forall>ops. distributePots potlist plist he = Inr ops \<longrightarrow>
            sum_list (map op_amount ops) = sum_list (map pot_amount potlist) \<and>
            sum_list (map op_amount ops) = getTotalPot potlist \<and>
            (\<forall>op\<in>set ops. 0 \<le> op_amount op)) \<and>
         ((\<forall>p\<in>set plist. \<not> folded p \<longrightarrow> he (player_id p) \<noteq> None) \<longrightarrow>
            (\<exists>ops. distributePots potlist plist he = Inr ops))"
proof (intro conjI allI impI)
  fix ops
  assume "distributePots potlist plist he = Inr ops"
  with assms have "sum_list (map op_amount ops) = sum_list (map pot_amount potlist) \<and>
      (\<forall>op\<in>set ops. 0 \<le> op_amount op)"
  proof (induction potlist arbitrary: ops)
    case Nil
    then show ?case by (simp add: distributePots_Nil)
  next
    case (Cons pot potlist)
    from Cons.prems(3) obtain first later where
      first: "distributePot pot plist he = Inr first" and
      later: "distributePots potlist plist he = Inr later" and
      ops: "ops = first @ later"
      by (auto simp add: distributePots_Cons split: sum.splits)
    from Cons.prems(1,2) have
      "sum_list (map op_amount first) = pot_amount pot \<and> (\<forall>op\<in>set first. 0 \<le> op_amount op)"
      by (intro distributePot_conserves [OF first]) simp_all
    moreover from Cons.prems(1,2) later have
      "sum_list (map op_amount later) = sum_list (map pot_amount potlist) \<and>
       (\<forall>op\<in>set later. 0 \<le> op_amount op)"
      by (intro Cons.IH) simp_all
    ultimately show ?case by (auto simp add: ops)
  qed
  then show "sum_list (map op_amount ops) = sum_list (map pot_amount potlist)"
    and "sum_list (map op_amount ops) = getTotalPot potlist"
    and "\<forall>op\<in>set ops. 0 \<le> op_amount op"
    by (simp_all add: getTotalPot_sum_list)
next
  assume hands: "\<forall>p\<in>set plist. \<not> folded p \<longrightarrow> he (player_id p) \<noteq> None"
  show "\<exists>ops. distributePots potlist plist he = Inr ops"
  proof (induction potlist)
    case Nil
    show ?case by (simp add: distributePots_Nil)
  next
    case (Cons pot potlist)
    from distributePot_returns [OF hands] obtain first where
      "distributePot pot plist he = Inr first" by blast
    with Cons show ?case by (auto simp add: distributePots_Cons)
  qed
qed

text \<open>
  The theorem at a pot of 101 chips contested by two players with equal hands.
\<close>

theorem distributePots_conserves_witness:
  "\<exists>ops. distributePots [\<lparr>pot_amount = 101, eligiblePlayers = [0, 1]\<rparr>]
            [Player 0 ''You'' 1000 True, Player 1 ''Sarah'' 1000 False]
            [0 \<mapsto> \<lparr>ranking = 1, hand_name = ''High Card'', hand_values = [14, 13, 12, 11, 9],
                    hand_cards = []\<rparr>,
             1 \<mapsto> \<lparr>ranking = 1, hand_name = ''High Card'', hand_values = [14, 13, 12, 11, 9],
                    hand_cards = []\<rparr>] = Inr ops \<and>
          sum_list (map op_amount ops) = 101"
proof -
  let ?pots = "[\<lparr>pot_amount = 101, eligiblePlayers = [0, 1]\<rparr>]"
  let ?players = "[Player 0 ''You'' 1000 True, Player 1 ''Sarah'' 1000 False]"
  let ?h = "\<lparr>ranking = 1, hand_name = ''High Card'', hand_values = [14, 13, 12, 11, 9],
             hand_cards = []\<rparr>"
  let ?he = "[0 \<mapsto> ?h, 1 \<mapsto> ?h] :: nat \<rightharpoonup> hand"
  have h1: "\<forall>pot\<in>set ?pots. 0 \<le> pot_amount pot" by simp
  have h2: "\<forall>pot\<in>set ?pots. \<exists>p\<in>set ?players.
      player_id p \<in> set (eligiblePlayers pot) \<and> \<not> folded p"
    by (simp add: Player_def)
  have h3: "\<forall>p\<in>set ?players. \<not> folded p \<longrightarrow> ?he (player_id p) \<noteq> None"
    by (simp add: Player_def)
  from distributePots_conserves [OF h1 h2, of ?he] h1 h2 h3 show ?thesis
    by auto
qed

section \<open>C4: the uncalled bet goes back to its only eligible player\<close>

text \<open>
  Claim C4. In distributePots, for every pot whose eligible players, restricted to
  those not folded, number exactly one (the filtered list is \<open>[p]\<close>), the loop body
  emits a single operation of type return for the full pot amount to that player; the
  operations of the whole call are those of the pots before it, this one operation,
  and those of the pots after it. No hand is compared for that pot: the operation is
  the same whatever the hand results are, even when there are none.
\<close>

theorem distributePots_uncalled_refund:
  assumes "filter (\<lambda>q. player_id q \<in> set (eligiblePlayers pot) \<and> \<not> folded q) plist = [p]"
  shows "distributePot pot plist he =
           Inr [\<lparr>playerId = player_id p, op_amount = pot_amount pot,
                 op_type = Return, op_hand = None\<rparr>]
         \<and> distributePot pot plist he = distributePot pot plist Map.empty
         \<and> distributePots (before @ pot # after) plist he =
             (case distributePots before plist he of
                Inl e \<Rightarrow> Inl e
              | Inr ops1 \<Rightarrow>
                  (case distributePots after plist he of
                     Inl e \<Rightarrow> Inl e
                   | Inr ops2 \<Rightarrow>
                       Inr (ops1 @ [\<lparr>playerId = player_id p, op_amount = pot_amount pot,
                                     op_type = Return, op_hand = None\<rparr>] @ ops2)))"
proof (intro conjI)
  show one: "distributePot pot plist he =
           Inr [\<lparr>playerId = player_id p, op_amount = pot_amount pot,
                 op_type = Return, op_hand = None\<rparr>]"
    using assms by (rule distributePot_single)
  show "distributePot pot plist he = distributePot pot plist Map.empty"
    using assms by (simp add: distributePot_single)
  show "distributePots (before @ pot # after) plist he =
             (case distributePots before plist he of
                Inl e \<Rightarrow> Inl e
              | Inr ops1 \<Rightarrow>
                  (case distributePots after plist he of
                     Inl e \<Rightarrow> Inl e
                   | Inr ops2 \<Rightarrow>
                       Inr (ops1 @ [\<lparr>playerId = player_id p, op_amount = pot_amount pot,
                                     op_type = Return, op_hand = None\<rparr>] @ ops2)))"
    by (simp add: distributePots_append distributePots_Cons one split: sum.splits)
qed

text \<open>
  The theorem at the refund pot of contributions 100 against 50: the second pot holds
  the 50 chips that only player 0 put in.
\<close>

theorem distributePots_uncalled_refund_witness:
  "filter (\<lambda>q. player_id q \<in> set (eligiblePlayers \<lparr>pot_amount = 50, eligiblePlayers = [0]\<rparr>) \<and>
               \<not> folded q)
     [Player 0 ''You'' 900 True, Player 1 ''Sarah'' 0 False] = [Player 0 ''You'' 900 True]
   \<and> distributePots ([] @ \<lparr>pot_amount = 50, eligiblePlayers = [0]\<rparr> # [])
       [Player 0 ''You'' 900 True, Player 1 ''Sarah'' 0 False] Map.empty
     = Inr [\<lparr>playerId = 0, op_amount = 50, op_type = Return, op_hand = None\<rparr>]"
proof -
  have h: "filter (\<lambda>q. player_id q \<in> set (eligiblePlayers \<lparr>pot_amount = 50, eligiblePlayers = [0]\<rparr>) \<and>
               \<not> folded q)
     [Player 0 ''You'' 900 True, Player 1 ''Sarah'' 0 False] = [Player 0 ''You'' 900 True]"
    by (simp add: Player_def)
  from distributePots_uncalled_refund [OF h, of Map.empty "[]" "[]"] h show ?thesis
    by (simp add: distributePots_Nil Player_def)
qed

section \<open>C5: contributions of 100 against 50\<close>

lemma add_contributions_below_level:
  assumes "\<forall>q\<in>set others. lookup_or_0 bets (player_id q) < level"
  shows "add_contributions others bets level previousLevel pot = pot"
  using assms by (induction others arbitrary: pot) (simp_all add: Let_def)

text \<open>
  Claim C5, as stated, gives both pots the amount 50. The first pot collects 50 from
  each of the two players, which is 100.
\<close>

theorem createPots_100_50_first_pot_is_100:
  "createPots [Player 0 ''You'' 900 True, Player 1 ''Sarah'' 950 False,
               (Player 2 ''Mike'' 1000 False)\<lparr>folded := True\<rparr>] [(0, 100), (1, 50)]
     = [\<lparr>pot_amount = 100, eligiblePlayers = [0, 1]\<rparr>, \<lparr>pot_amount = 50, eligiblePlayers = [0]\<rparr>]
   \<and> createPots [Player 0 ''You'' 900 True, Player 1 ''Sarah'' 950 False,
               (Player 2 ''Mike'' 1000 False)\<lparr>folded := True\<rparr>] [(0, 100), (1, 50)]
     \<noteq> [\<lparr>pot_amount = 50, eligiblePlayers = [0, 1]\<rparr>, \<lparr>pot_amount = 50, eligiblePlayers = [0]\<rparr>]"
  by code_simp

text \<open>
  Claim C5, amended. For the contributions map {P0: 100, P1: 50}, the players array
  starting with P0 and P1, neither folded, and every other player folded and without a
  contribution, createPots produces exactly two pots: one of amount 100 with the
  eligible players P0 and P1, and one of amount 50 with the eligible player P0 only.
  Distributing these pots when the hand of P0 strictly beats the hand of P1 yields
  exactly one win operation of 100 to P0 followed by one return operation of 50 to P0.
\<close>

theorem createPots_distributePots_100_50:
  assumes "player_id p0 = 0" and "player_id p1 = 1"
    and "\<not> folded p0" and "\<not> folded p1"
    and "\<forall>q\<in>set others. folded q \<and> player_id q \<noteq> 0 \<and> player_id q \<noteq> 1"
    and "he 0 = Some h0" and "he 1 = Some h1"
    and "0 < compareHands h0 h1"
  shows "createPots (p0 # p1 # others) [(0, 100), (1, 50)] =
           [\<lparr>pot_amount = 100, eligiblePlayers = [0, 1]\<rparr>,
            \<lparr>pot_amount = 50, eligiblePlayers = [0]\<rparr>]
         \<and> distributePots (createPots (p0 # p1 # others) [(0, 100), (1, 50)])
             (p0 # p1 # others) he =
           Inr [\<lparr>playerId = 0, op_amount = 100, op_type = Win, op_hand = Some h0\<rparr>,
                \<lparr>playerId = 0, op_amount = 50, op_type = Return, op_hand = None\<rparr>]"
proof -
  let ?cb = "[(0, 100), (1, 50)] :: int js_object"
  let ?players = "p0 # p1 # others"
  have levels: "js_sort (\<lambda>a b. a - b) (remdups (Object_values ?cb)) = [50, 100]"
    by code_simp
  have other_bets: "\<forall>q\<in>set others. lookup_or_0 ?cb (player_id q) < level" if "0 < level" for level
    using assms(5) that by (auto simp add: lookup_or_0_def)
  have pot1: "add_contributions ?players ?cb 50 0 \<lparr>pot_amount = 0, eligiblePlayers = []\<rparr> =
              \<lparr>pot_amount = 100, eligiblePlayers = [0, 1]\<rparr>"
    using assms(1-4) other_bets [of 50]
    by (simp add: lookup_or_0_def Let_def add_contributions_below_level)
  have pot2: "add_contributions ?players ?cb 100 50 \<lparr>pot_amount = 0, eligiblePlayers = []\<rparr> =
              \<lparr>pot_amount = 50, eligiblePlayers = [0]\<rparr>"
    using assms(1-4) other_bets [of 100]
    by (simp add: lookup_or_0_def Let_def add_contributions_below_level)
  have potlist: "createPots ?players ?cb =
           [\<lparr>pot_amount = 100, eligiblePlayers = [0, 1]\<rparr>,
            \<lparr>pot_amount = 50, eligiblePlayers = [0]\<rparr>]"
  proof -
    have "createPots_levels [50, 100] ?players ?cb 0 [] =
           [\<lparr>pot_amount = 100, eligiblePlayers = [0, 1]\<rparr>,
            \<lparr>pot_amount = 50, eligiblePlayers = [0]\<rparr>]"
      by (simp only: createPots_levels.simps Let_def pot1 pot2) simp
    then show ?thesis
      unfolding createPots_def levels Let_def by (simp add: js_index_def)
  qed
  have others_out: "filter (\<lambda>q. P q \<and> \<not> folded q) others = []" for P
    using assms(5) by (simp add: filter_empty_conv)
  have e1: "[p0, p1] = filter (\<lambda>q. player_id q \<in>
                set (eligiblePlayers \<lparr>pot_amount = 100, eligiblePlayers = [0, 1]\<rparr>) \<and> \<not> folded q)
              ?players"
    using assms(1-4) others_out by simp
  have e2: "filter (\<lambda>q. player_id q \<in>
                set (eligiblePlayers \<lparr>pot_amount = 50, eligiblePlayers = [0]\<rparr>) \<and> \<not> folded q)
              ?players = [p0]"
    using assms(1-4) others_out by simp
  have lose: "\<not> 0 < compareHands h1 h0" "compareHands h1 h0 \<noteq> 0"
    using assms(8) compareHands_flip [of h0 h1] by simp_all
  have w: "find_winners [p0, p1] he None [] = Inr [p0]"
    using assms(1,2,6,7) lose by (simp add: Let_def)
  have d1: "distributePot \<lparr>pot_amount = 100, eligiblePlayers = [0, 1]\<rparr> ?players he =
            Inr [\<lparr>playerId = 0, op_amount = 100, op_type = Win, op_hand = Some h0\<rparr>]"
    using distributePot_contested [OF e1, of he] w assms(1,6)
    by (simp add: js_floor_div_def js_rem_def)
  have d2: "distributePot \<lparr>pot_amount = 50, eligiblePlayers = [0]\<rparr> ?players he =
            Inr [\<lparr>playerId = 0, op_amount = 50, op_type = Return, op_hand = None\<rparr>]"
    using distributePot_single [OF e2, of he] assms(1) by simp
  show ?thesis
    unfolding potlist distributePots_Cons distributePots_Nil d1 d2 by simp
qed

text \<open>
  The theorem at six seats, the four others folded, with a pair against a high card.
\<close>

theorem createPots_distributePots_100_50_witness:
  "distributePots
     (createPots
        (Player 0 ''You'' 900 True # Player 1 ''Sarah'' 950 False #
         [(Player 2 ''Mike'' 1000 False)\<lparr>folded := True\<rparr>,
          (Player 3 ''Emma'' 1000 False)\<lparr>folded := True\<rparr>,
          (Player 4 ''Jake'' 1000 False)\<lparr>folded := True\<rparr>,
          (Player 5 ''Alex'' 1000 False)\<lparr>folded := True\<rparr>])
        [(0, 100), (1, 50)])
     (Player 0 ''You'' 900 True # Player 1 ''Sarah'' 950 False #
      [(Player 2 ''Mike'' 1000 False)\<lparr>folded := True\<rparr>,
       (Player 3 ''Emma'' 1000 False)\<lparr>folded := True\<rparr>,
       (Player 4 ''Jake'' 1000 False)\<lparr>folded := True\<rparr>,
       (Player 5 ''Alex'' 1000 False)\<lparr>folded := True\<rparr>])
     [0 \<mapsto> \<lparr>ranking = 2, hand_name = ''Pair'', hand_values = [9, 14, 13, 12], hand_cards = []\<rparr>,
      1 \<mapsto> \<lparr>ranking = 1, hand_name = ''High Card'', hand_values = [14, 13, 12, 9, 7],
             hand_cards = []\<rparr>]
   = Inr [\<lparr>playerId = 0, op_amount = 100, op_type = Win,
           op_hand = Some \<lparr>ranking = 2, hand_name = ''Pair'', hand_values = [9, 14, 13, 12],
                           hand_cards = []\<rparr>\<rparr>,
          \<lparr>playerId = 0, op_amount = 50, op_type = Return, op_hand = None\<rparr>]"
proof -
  let ?pair = "\<lparr>ranking = 2, hand_name = ''Pair'', hand_values = [9, 14, 13, 12],
                hand_cards = []\<rparr>"
  let ?high = "\<lparr>ranking = 1, hand_name = ''High Card'', hand_values = [14, 13, 12, 9, 7],
                hand_cards = []\<rparr>"
  let ?he = "[0 \<mapsto> ?pair, 1 \<mapsto> ?high] :: nat \<rightharpoonup> hand"
  let ?others = "[(Player 2 ''Mike'' 1000 False)\<lparr>folded := True\<rparr>,
          (Player 3 ''Emma'' 1000 False)\<lparr>folded := True\<rparr>,
          (Player 4 ''Jake'' 1000 False)\<lparr>folded := True\<rparr>,
          (Player 5 ''Alex'' 1000 False)\<lparr>folded := True\<rparr>]"
  have a1: "player_id (Player 0 ''You'' 900 True) = 0"
    and a2: "player_id (Player 1 ''Sarah'' 950 False) = 1"
    and a3: "\<not> folded (Player 0 ''You'' 900 True)"
    and a4: "\<not> folded (Player 1 ''Sarah'' 950 False)"
    by (simp_all add: Player_def)
  have a5: "\<forall>q\<in>set ?others. folded q \<and> player_id q \<noteq> 0 \<and> player_id q \<noteq> 1"
    by (simp add: Player_def)
  have a6: "?he 0 = Some ?pair" and a7: "?he 1 = Some ?high" by simp_all
  have a8: "0 < compareHands ?pair ?high" by (simp add: compareHands_def)
  from createPots_distributePots_100_50 [OF a1 a2 a3 a4 a5 a6 a7 a8, THEN conjunct2]
  show ?thesis .
qed

section \<open>C6: a contested pot is split, the remainder going to the first winner\<close>





section \<open>C7: evaluateHand returns the best five-card hand of six or seven cards\<close>

text \<open>
  Claim C7. For every list of exactly 6 or exactly 7 cards, evaluateHand returns a
  result; that result is evaluate5Cards of some 5-card subset of the input (a
  subsequence of length 5), and it compares greater than or equal to evaluate5Cards
  of every 5-card subset.
\<close>

theorem evaluateHand_best_of_all_subsets:
  assumes "length cards = 6 \<or> length cards = 7"
  shows "\<exists>best. evaluateHand cards = Inr (Some best) \<and>
           (\<exists>combo. subseq combo cards \<and> length combo = 5 \<and>
                    evaluate5Cards combo = Inr best) \<and>
           (\<forall>combo. subseq combo cards \<and> length combo = 5 \<longrightarrow>
                    (\<exists>h. evaluate5Cards combo = Inr h \<and> 0 \<le> compareHands best h))"
proof -
  let ?combos = "getCombinations cards 5"
  from assms have run: "evaluateHand cards = best_of ?combos None"
    by (auto simp add: evaluateHand_def findBest5CardHand_def)
  have five: "\<forall>combo\<in>set ?combos. combo \<noteq> []"
    by (auto simp add: set_getCombinations)
  from assms have "5 \<le> length cards" by auto
  then have "?combos \<noteq> []" by (rule getCombinations_nonempty)
  with best_of_maximal [of ?combos None] five
  obtain best where best: "best_of ?combos None = Inr (Some best)"
    "\<exists>combo\<in>set ?combos. evaluate5Cards combo = Inr best"
    "\<forall>combo\<in>set ?combos. \<exists>h. evaluate5Cards combo = Inr h \<and> 0 \<le> compareHands best h"
    by auto
  from best(2) have "\<exists>combo. subseq combo cards \<and> length combo = 5 \<and>
      evaluate5Cards combo = Inr best"
    by (auto simp add: set_getCombinations)
  moreover from best(3) have "\<forall>combo. subseq combo cards \<and> length combo = 5 \<longrightarrow>
      (\<exists>h. evaluate5Cards combo = Inr h \<and> 0 \<le> compareHands best h)"
    by (simp add: set_getCombinations)
  ultimately show ?thesis using run best(1) by auto
qed

text \<open>
  The theorem at seven concrete cards: the hole cards 2 and 3 of clubs with the board
  ace, king, queen and jack of spades and 9 of diamonds. The best hand is at least as
  good as the five cards of the board, an ace-high high card.
\<close>

theorem evaluateHand_best_of_all_subsets_witness:
  "\<exists>best. evaluateHand [Card Clubs R2, Card Clubs R3, Card Spades RA, Card Spades RK,
                        Card Spades RQ, Card Spades RJ, Card Diamonds R9] = Inr (Some best) \<and>
          0 \<le> compareHands best
                 \<lparr>ranking = 1, hand_name = ''High Card'', hand_values = [14, 13, 12, 11, 9],
                  hand_cards = [Card Spades RA, Card Spades RK, Card Spades RQ, Card Spades RJ,
                                Card Diamonds R9]\<rparr>"
proof -
  let ?cards = "[Card Clubs R2, Card Clubs R3, Card Spades RA, Card Spades RK, Card Spades RQ,
                 Card Spades RJ, Card Diamonds R9]"
  let ?board = "[Card Spades RA, Card Spades RK, Card Spades RQ, Card Spades RJ,
                 Card Diamonds R9]"
  let ?h = "\<lparr>ranking = 1, hand_name = ''High Card'', hand_values = [14, 13, 12, 11, 9],
             hand_cards = ?board\<rparr>"
  have seven: "length ?cards = 6 \<or> length ?cards = 7" by simp
  have sub: "subseq ?board ?cards \<and> length ?board = 5" by simp
  have board: "evaluate5Cards ?board = Inr ?h" by code_simp
  from evaluateHand_best_of_all_subsets [OF seven]
  obtain best where best: "evaluateHand ?cards = Inr (Some best)"
    "\<forall>combo. subseq combo ?cards \<and> length combo = 5 \<longrightarrow>
        (\<exists>h. evaluate5Cards combo = Inr h \<and> 0 \<le> compareHands best h)"
    by blast
  from best(2) sub obtain h where "evaluate5Cards ?board = Inr h" "0 \<le> compareHands best h"
    by blast
  with board have "0 \<le> compareHands best ?h" by simp
  with best(1) show ?thesis by blast
qed

section \<open>C8: compareHands orders hand results by ranking, then by padded values\<close>

lemma value_or_0_eq: "value_or_0 vs j = (if j < length vs then vs ! j else 0)"
  by (simp add: value_or_0_def)

text \<open>
  Claim C8. compareHands is a total order on evaluation results that agrees with
  comparing the ranking first and then the values vectors lexicographically, a missing
  trailing element counting as 0: swapping the arguments negates the result, so exactly
  one of greater, less and equal holds and the two directions have opposite sign; the
  relation is transitive (in its weak and in its strict forms); and the result is 0
  exactly when the rankings are equal and the zero-padded values vectors coincide.
\<close>

theorem compareHands_total_order:
  "compareHands b a = - compareHands a b
   \<and> (0 < compareHands a b \<longleftrightarrow> compareHands b a < 0)
   \<and> (compareHands a b = 0 \<longleftrightarrow> compareHands b a = 0)
   \<and> (0 \<le> compareHands a b \<and> 0 \<le> compareHands b c \<longrightarrow> 0 \<le> compareHands a c)
   \<and> (0 < compareHands a b \<and> 0 \<le> compareHands b c \<longrightarrow> 0 < compareHands a c)
   \<and> (0 \<le> compareHands a b \<and> 0 < compareHands b c \<longrightarrow> 0 < compareHands a c)
   \<and> (compareHands a b = 0 \<longleftrightarrow>
        ranking a = ranking b \<and>
        (\<forall>j. (if j < length (hand_values a) then hand_values a ! j else 0) =
             (if j < length (hand_values b) then hand_values b ! j else 0)))
   \<and> (0 < compareHands a b \<longleftrightarrow>
        ranking b < ranking a \<or>
        ranking a = ranking b \<and>
        (\<exists>k. (\<forall>j<k. (if j < length (hand_values a) then hand_values a ! j else 0) =
                     (if j < length (hand_values b) then hand_values b ! j else 0)) \<and>
             (if k < length (hand_values b) then hand_values b ! k else 0) <
             (if k < length (hand_values a) then hand_values a ! k else 0)))"
proof (intro conjI)
  show "compareHands b a = - compareHands a b" by (rule compareHands_flip)
  show "0 < compareHands a b \<longleftrightarrow> compareHands b a < 0"
    using compareHands_flip [of a b] by simp
  show "compareHands a b = 0 \<longleftrightarrow> compareHands b a = 0"
    using compareHands_flip [of a b] by simp
  show "0 \<le> compareHands a b \<and> 0 \<le> compareHands b c \<longrightarrow> 0 \<le> compareHands a c"
    using compareHands_nonneg_trans by blast
  show "0 < compareHands a b \<and> 0 \<le> compareHands b c \<longrightarrow> 0 < compareHands a c"
    using compareHands_pos_nonneg_trans by blast
  show "0 \<le> compareHands a b \<and> 0 < compareHands b c \<longrightarrow> 0 < compareHands a c"
    using compareHands_nonneg_pos_trans by blast
  show "compareHands a b = 0 \<longleftrightarrow>
        ranking a = ranking b \<and>
        (\<forall>j. (if j < length (hand_values a) then hand_values a ! j else 0) =
             (if j < length (hand_values b) then hand_values b ! j else 0))"
    using compareHands_zero_iff [of a b] by (simp only: value_or_0_eq)
  show "0 < compareHands a b \<longleftrightarrow>
        ranking b < ranking a \<or>
        ranking a = ranking b \<and>
        (\<exists>k. (\<forall>j<k. (if j < length (hand_values a) then hand_values a ! j else 0) =
                     (if j < length (hand_values b) then hand_values b ! j else 0)) \<and>
             (if k < length (hand_values b) then hand_values b ! k else 0) <
             (if k < length (hand_values a) then hand_values a ! k else 0))"
    using compareHands_pos_iff [of a b] by (simp only: value_or_0_eq)
qed

text \<open>
  The theorem at three concrete results: a pair with kickers [14, 13], a pair with
  kickers [14, 12, 0] and a high card. The first beats the second on the second
  kicker, the second beats the third on the ranking, and so the first beats the third.
\<close>

theorem compareHands_total_order_witness:
  "0 < compareHands \<lparr>ranking = 2, hand_name = ''Pair'', hand_values = [14, 13], hand_cards = []\<rparr>
                    \<lparr>ranking = 2, hand_name = ''Pair'', hand_values = [14, 12, 0], hand_cards = []\<rparr>
   \<and> 0 \<le> compareHands \<lparr>ranking = 2, hand_name = ''Pair'', hand_values = [14, 12, 0], hand_cards = []\<rparr>
                    \<lparr>ranking = 1, hand_name = ''High Card'', hand_values = [14], hand_cards = []\<rparr>
   \<and> 0 < compareHands \<lparr>ranking = 2, hand_name = ''Pair'', hand_values = [14, 13], hand_cards = []\<rparr>
                    \<lparr>ranking = 1, hand_name = ''High Card'', hand_values = [14], hand_cards = []\<rparr>
   \<and> compareHands \<lparr>ranking = 2, hand_name = ''Pair'', hand_values = [14, 12, 0], hand_cards = []\<rparr>
                  \<lparr>ranking = 2, hand_name = ''Pair'', hand_values = [14, 13], hand_cards = []\<rparr> < 0"
proof -
  let ?a = "\<lparr>ranking = 2, hand_name = ''Pair'', hand_values = [14, 13], hand_cards = []\<rparr>"
  let ?b = "\<lparr>ranking = 2, hand_name = ''Pair'', hand_values = [14, 12, 0], hand_cards = []\<rparr>"
  let ?c = "\<lparr>ranking = 1, hand_name = ''High Card'', hand_values = [14], hand_cards = []\<rparr>"
  have ab: "0 < compareHands ?a ?b"
    by (simp add: compareHands_def compareValues.simps value_or_0_def)
  have bc: "0 \<le> compareHands ?b ?c"
    by (simp add: compareHands_def)
  from compareHands_total_order [of ?b ?a ?c] ab bc show ?thesis
    by simp
qed

section \<open>C9: when a betting round is reported complete\<close>







section \<open>C10: a human wager of the whole stack or more is an all-in\<close>

lemma humanAllIn_pending:
  assumes "waitingForHumanAction s" and "players s = human # others"
  shows "humanAllIn s =
           processPlayerAction (s\<lparr>waitingForHumanAction := False\<rparr>) 0 ALL_IN (stack human)"
  using assms by (simp add: humanAllIn_def js_index_def)

lemma processPlayerAction_ALL_IN_pays_stack:
  assumes "players s = human # others"
    and "map_of (currentBets s) (player_id human) = Some paid"
  shows "\<exists>s' human'. processPlayerAction s 0 ALL_IN amount = Inr s' \<and>
           players s' = human' # tl (players s') \<and>
           player_id human' = player_id human \<and>
           stack human' = 0 \<and> allIn human' \<and>
           totalBet human' = totalBet human + stack human \<and>
           map_of (currentBets s') (player_id human) = Some (paid + stack human)"
proof -
  have idx: "js_index (players s) 0 = Some human"
    using assms(1) by (simp add: js_index_def)
  show ?thesis
    unfolding processPlayerAction_unfold [OF idx]
    using assms
    by (simp add: bet_whole_stack Let_def players_validateGameState validateGameState_fields
        moveToNextPlayer_fields update_conv')
qed

text \<open>
  Claim C10. For every engine state in which a human decision is pending (the flag
  \<open>waitingForHumanAction\<close> is set, the human is \<open>players[0]\<close> and has an entry in
  \<open>currentBets\<close>): humanCall with the required call amount greater than or equal to
  the human's stack, and humanBet(amount) or humanRaise(amount) with the amount greater
  than or equal to the human's stack, process no call, bet or raise but an all-in
  action, and that action returns with the human's stack at 0 and the human's
  contribution raised by the whole stack; otherwise the named action is processed with
  the given amount (for humanCall, the call amount).
\<close>

theorem human_wager_all_in:
  assumes "waitingForHumanAction s"
    and "players s = human # others"
    and "map_of (currentBets s) (player_id human) = Some paid"
  shows "humanCall s =
           (if currentBet s - paid \<ge> stack human
            then processPlayerAction (s\<lparr>waitingForHumanAction := False\<rparr>) 0 ALL_IN (stack human)
            else processPlayerAction (s\<lparr>waitingForHumanAction := False\<rparr>) 0 CALL
                   (currentBet s - paid))
         \<and> humanBet s amount =
           (if amount \<ge> stack human
            then processPlayerAction (s\<lparr>waitingForHumanAction := False\<rparr>) 0 ALL_IN (stack human)
            else processPlayerAction (s\<lparr>waitingForHumanAction := False\<rparr>) 0 BET amount)
         \<and> humanRaise s amount =
           (if amount \<ge> stack human
            then processPlayerAction (s\<lparr>waitingForHumanAction := False\<rparr>) 0 ALL_IN (stack human)
            else processPlayerAction (s\<lparr>waitingForHumanAction := False\<rparr>) 0 RAISE amount)
         \<and> (\<exists>s' human'.
              processPlayerAction (s\<lparr>waitingForHumanAction := False\<rparr>) 0 ALL_IN (stack human)
                = Inr s' \<and>
              players s' = human' # tl (players s') \<and>
              player_id human' = player_id human \<and>
              stack human' = 0 \<and> allIn human' \<and>
              totalBet human' = totalBet human + stack human \<and>
              map_of (currentBets s') (player_id human) = Some (paid + stack human))"
proof (intro conjI)
  note allin = humanAllIn_pending [OF assms(1,2)]
  show "humanCall s =
           (if currentBet s - paid \<ge> stack human
            then processPlayerAction (s\<lparr>waitingForHumanAction := False\<rparr>) 0 ALL_IN (stack human)
            else processPlayerAction (s\<lparr>waitingForHumanAction := False\<rparr>) 0 CALL
                   (currentBet s - paid))"
    using assms by (simp add: humanCall_def js_index_def Let_def allin)
  show "humanBet s amount =
           (if amount \<ge> stack human
            then processPlayerAction (s\<lparr>waitingForHumanAction := False\<rparr>) 0 ALL_IN (stack human)
            else processPlayerAction (s\<lparr>waitingForHumanAction := False\<rparr>) 0 BET amount)"
    using assms by (simp add: humanBet_def js_index_def allin)
  show "humanRaise s amount =
           (if amount \<ge> stack human
            then processPlayerAction (s\<lparr>waitingForHumanAction := False\<rparr>) 0 ALL_IN (stack human)
            else processPlayerAction (s\<lparr>waitingForHumanAction := False\<rparr>) 0 RAISE amount)"
    using assms by (simp add: humanRaise_def js_index_def allin)
  show "\<exists>s' human'.
              processPlayerAction (s\<lparr>waitingForHumanAction := False\<rparr>) 0 ALL_IN (stack human)
                = Inr s' \<and>
              players s' = human' # tl (players s') \<and>
              player_id human' = player_id human \<and>
              stack human' = 0 \<and> allIn human' \<and>
              totalBet human' = totalBet human + stack human \<and>
              map_of (currentBets s') (player_id human) = Some (paid + stack human)"
    using assms(2,3)
    by (intro processPlayerAction_ALL_IN_pays_stack) simp_all
qed

text \<open>
  The theorem at a state in which the human, with 40 chips left, faces a bet of 100:
  humanCall goes all-in for 40, while humanBet 30 is processed as a bet of 30.
\<close>

theorem human_wager_all_in_witness:
  "waitingForHumanAction
     \<lparr>players = [Player 0 ''You'' 40 True, Player 1 ''Sarah'' 860 False],
      deck = [], communityCards = [], pots = [], state = FLOP, dealerIndex = 0,
      currentPlayerIndex = 0, currentBet = 100, minRaise = 100, smallBlind = 5,
      bigBlind = 10, handNumber = 1, waitingForHumanAction = True,
      currentBets = [(0, 0), (1, 100)], playersActedThisRound = [(0, False), (1, True)],
      emitted = []\<rparr>
   \<and> (\<exists>s' human'.
        humanCall
          \<lparr>players = [Player 0 ''You'' 40 True, Player 1 ''Sarah'' 860 False],
           deck = [], communityCards = [], pots = [], state = FLOP, dealerIndex = 0,
           currentPlayerIndex = 0, currentBet = 100, minRaise = 100, smallBlind = 5,
           bigBlind = 10, handNumber = 1, waitingForHumanAction = True,
           currentBets = [(0, 0), (1, 100)], playersActedThisRound = [(0, False), (1, True)],
           emitted = []\<rparr> = Inr s' \<and>
        players s' = human' # tl (players s') \<and> stack human' = 0 \<and> allIn human' \<and>
        map_of (currentBets s') 0 = Some 40)
   \<and> humanBet
        \<lparr>players = [Player 0 ''You'' 40 True, Player 1 ''Sarah'' 860 False],
         deck = [], communityCards = [], pots = [], state = FLOP, dealerIndex = 0,
         currentPlayerIndex = 0, currentBet = 100, minRaise = 100, smallBlind = 5,
         bigBlind = 10, handNumber = 1, waitingForHumanAction = True,
         currentBets = [(0, 0), (1, 100)], playersActedThisRound = [(0, False), (1, True)],
         emitted = []\<rparr> 30 =
       processPlayerAction
        \<lparr>players = [Player 0 ''You'' 40 True, Player 1 ''Sarah'' 860 False],
         deck = [], communityCards = [], pots = [], state = FLOP, dealerIndex = 0,
         currentPlayerIndex = 0, currentBet = 100, minRaise = 100, smallBlind = 5,
         bigBlind = 10, handNumber = 1, waitingForHumanAction = False,
         currentBets = [(0, 0), (1, 100)], playersActedThisRound = [(0, False), (1, True)],
         emitted = []\<rparr> 0 BET 30"
proof -
  let ?human = "Player 0 ''You'' 40 True"
  let ?s = "\<lparr>players = [?human, Player 1 ''Sarah'' 860 False],
      deck = [], communityCards = [], pots = [], state = FLOP, dealerIndex = 0,
      currentPlayerIndex = 0, currentBet = 100, minRaise = 100, smallBlind = 5,
      bigBlind = 10, handNumber = 1, waitingForHumanAction = True,
      currentBets = [(0, 0), (1, 100)], playersActedThisRound = [(0, False), (1, True)],
      emitted = []\<rparr>"
  have pending: "waitingForHumanAction ?s" by simp
  have seat: "players ?s = ?human # [Player 1 ''Sarah'' 860 False]" by simp
  have paid: "map_of (currentBets ?s) (player_id ?human) = Some 0"
    by (simp add: Player_def)
  have stack: "stack ?human = 40" and ident: "player_id ?human = 0"
    by (simp_all add: Player_def)
  note inst = human_wager_all_in [OF pending seat paid, of 30]
  from inst have call: "humanCall ?s =
      processPlayerAction (?s\<lparr>waitingForHumanAction := False\<rparr>) 0 ALL_IN (stack ?human)"
    by (simp add: stack)
  from inst have wager: "humanBet ?s 30 =
      processPlayerAction (?s\<lparr>waitingForHumanAction := False\<rparr>) 0 BET 30"
    by (simp add: stack)
  from inst obtain s' human' where paid_all:
    "processPlayerAction (?s\<lparr>waitingForHumanAction := False\<rparr>) 0 ALL_IN (stack ?human) = Inr s'"
    "players s' = human' # tl (players s')" "stack human' = 0" "allIn human'"
    "map_of (currentBets s') (player_id ?human) = Some (0 + stack ?human)"
    by blast
  from paid_all call have "humanCall ?s = Inr s' \<and>
        players s' = human' # tl (players s') \<and> stack human' = 0 \<and> allIn human' \<and>
        map_of (currentBets s') 0 = Some 40"
    by (simp add: stack ident)
  then have "\<exists>s' human'. humanCall ?s = Inr s' \<and>
        players s' = human' # tl (players s') \<and> stack human' = 0 \<and> allIn human' \<and>
        map_of (currentBets s') 0 = Some 40"
    by blast
  with pending wager show ?thesis by simp
qed

end
